theory Spec2Isabelle
  imports Main
begin

section \<open>JavaScript values used by the generation service\<close>

text \<open>
  Strings are lists of code units. An optional field of a JavaScript object is an
  \<open>option\<close>: \<open>None\<close> stands for \<open>undefined\<close> or \<open>null\<close>. The operator \<open>a || b\<close> on a
  string picks \<open>b\<close> when \<open>a\<close> is absent or the empty string.
\<close>

definition truthy :: "string option \<Rightarrow> bool" where
  "truthy v = (case v of None \<Rightarrow> False | Some s \<Rightarrow> s \<noteq> [])"

definition or_else :: "string option \<Rightarrow> string \<Rightarrow> string" where
  "or_else v d = (case v of None \<Rightarrow> d | Some s \<Rightarrow> if s = [] then d else s)"

definition or_empty :: "'a list option \<Rightarrow> 'a list" where
  "or_empty v = (case v of None \<Rightarrow> [] | Some xs \<Rightarrow> xs)"

text \<open>White space as \<open>String.prototype.trim\<close> and the pattern \<open>\s\<close> see it, on the
  code units below 256: tab, line feed, vertical tab, form feed, carriage return, space
  and no-break space.\<close>

definition is_space :: "char \<Rightarrow> bool" where
  "is_space c = (c \<in> {CHR 0x09, CHR 0x0A, CHR 0x0B, CHR 0x0C, CHR 0x0D, CHR 0x20, CHR 0xA0})"

definition trim :: "string \<Rightarrow> string" where
  "trim s = rev (dropWhile is_space (rev (dropWhile is_space s)))"

text \<open>\<open>Array.prototype.join\<close>.\<close>

fun join :: "string \<Rightarrow> string list \<Rightarrow> string" where
  "join sep [] = []"
| "join sep [x] = x"
| "join sep (x # y # ys) = x @ sep @ join sep (y # ys)"

text \<open>The number of maximal runs of white space in a string: \<open>s.split(/\s+/).length\<close>
  is one more.\<close>

primrec ws_runs :: "bool \<Rightarrow> string \<Rightarrow> nat" where
  "ws_runs inside [] = 0"
| "ws_runs inside (c # cs) =
     (if is_space c then (if inside then 0 else 1) + ws_runs True cs
      else ws_runs False cs)"

definition split_ws_length :: "string \<Rightarrow> nat" where
  "split_ws_length s = Suc (ws_runs False s)"

text \<open>A number inside a template literal: its decimal digits.\<close>

definition digit_char :: "nat \<Rightarrow> char" where
  "digit_char d = ''0123456789'' ! d"

fun string_of_nat :: "nat \<Rightarrow> string" where
  "string_of_nat n =
     (if n < 10 then [digit_char n]
      else string_of_nat (n div 10) @ [digit_char (n mod 10)])"

declare string_of_nat.simps [simp del]


section \<open>Data model\<close>

text \<open>The fields that the generation service reads. The year of a reference is a number
  (taken to be a natural number) or a text.\<close>

datatype js_year = Year_number nat | Year_text string

record doc_section =
  sec_text :: "string option"

record doc_metadata =
  md_title :: "string option"
  md_authors :: "string list option"

record extracted =
  sections :: "(string \<rightharpoonup> doc_section) option"
  fullText :: "string option"

record reference =
  ref_id :: string
  ref_authors :: "string list option"
  ref_title :: "string option"
  ref_year :: "js_year option"
  ref_journal :: "string option"
  ref_doi :: "string option"
  rawText :: "string option"

record source_document =
  doc_id :: string
  filename :: string
  extracted_content :: "extracted option"
  metadata :: "doc_metadata option"
  references :: "reference list option"

record source_mapping =
  sourceSections :: "string list option"
  sourceDocuments :: "string list"

record section_config =
  templateSectionId :: string
  templateSectionTitle :: string
  sourceMapping :: source_mapping
  instructions :: "string option"
  targetLength :: "string option"

record project =
  projectId :: string
  mode :: string
  purpose :: string
  documents :: "source_document list"
  section_mapping :: "section_config list"
  global_instructions :: "string option"

text \<open>What a generated section carries back to the orchestrator.\<close>

record source_ref =
  documentId :: string
  ref_sections :: "string list option"

record section_result =
  success :: "bool option"
  content :: "string option"
  warnings :: "string list"
  sourceRefs :: "source_ref list"


section \<open>The prompt builder, the response parser and the model client\<close>

text \<open>
  The modules \<open>promptBuilder.js\<close>, \<open>responseParser.js\<close> and \<open>geminiClient.js\<close> are
  imported by the generation service. The prompt builders and the parsers are parameters
  of the model; what the service hands to a builder is recorded as a \<open>prompt_request\<close>.
\<close>

record rewrite_args =
  rw_sectionTitle :: string
  rw_sourceContent :: string
  rw_instructions :: "string option"
  rw_globalInstructions :: "string option"
  rw_targetLength :: "string option"
  rw_purpose :: string
  rw_documentMetadata :: "doc_metadata option"

record doc_content =
  dc_title :: string
  dc_authors :: "string list"
  dc_content :: string

record multi_args =
  mu_sectionTitle :: string
  mu_documents :: "doc_content list"
  mu_instructions :: "string option"
  mu_globalInstructions :: "string option"
  mu_targetLength :: "string option"
  mu_purpose :: "string option"

datatype prompt_request =
    SectionRewrite rewrite_args
  | ComparativeAnalysis multi_args
  | MultiDocumentSynthesis multi_args

record parsed =
  p_success :: "bool option"
  p_content :: "string option"
  p_warnings :: "string list option"

record ai =
  buildSectionRewritePrompt :: "rewrite_args \<Rightarrow> string"
  buildComparativeAnalysisPrompt :: "multi_args \<Rightarrow> string"
  buildMultiDocumentSynthesisPrompt :: "multi_args \<Rightarrow> string"
  parseSectionContent :: "string \<Rightarrow> string \<Rightarrow> parsed"
  parseMultiDocResponse :: "string \<Rightarrow> nat \<Rightarrow> parsed"

text \<open>Modelled from the spec: \<open>truncateForContext\<close> of \<open>promptBuilder.js\<close>, which is
  not among the sources. If the text is longer than \<open>maxChars\<close> it is cut to its first
  \<open>maxChars\<close> characters and \<open>truncated\<close> is set.\<close>

definition truncateForContext :: "string \<Rightarrow> nat \<Rightarrow> string \<times> bool" where
  "truncateForContext txt maxChars =
     (if length txt > maxChars then (take maxChars txt, True) else (txt, False))"

text \<open>
  A section generator runs until it returns or until it awaits the model client:
  \<open>Done r\<close> is a return without a model call; \<open>AwaitModel req prompt k\<close> says that the
  builder was given \<open>req\<close>, that \<open>generateContent\<close> was called once with \<open>prompt\<close>, and
  that the generator returns \<open>k response\<close> when the call resolves.
\<close>

datatype gen_step =
    Done section_result
  | AwaitModel prompt_request string "string \<Rightarrow> section_result"

primrec model_prompts :: "gen_step \<Rightarrow> string list" where
  "model_prompts (Done r) = []"
| "model_prompts (AwaitModel req prompt k) = [prompt]"


section \<open>Extracting source content\<close>

definition section_texts :: "(string \<rightharpoonup> doc_section) \<Rightarrow> string \<Rightarrow> string list" where
  "section_texts secs key =
     (case secs key of
        None \<Rightarrow> []
      | Some s \<Rightarrow> (case sec_text s of None \<Rightarrow> [] | Some t \<Rightarrow> if t = [] then [] else [t]))"

definition doc_sections :: "source_document \<Rightarrow> (string \<rightharpoonup> doc_section)" where
  "doc_sections document =
     (case extracted_content document of
        None \<Rightarrow> Map.empty
      | Some ec \<Rightarrow> (case sections ec of None \<Rightarrow> Map.empty | Some m \<Rightarrow> m))"

definition doc_fullText :: "source_document \<Rightarrow> string" where
  "doc_fullText document =
     (case extracted_content document of None \<Rightarrow> [] | Some ec \<Rightarrow> or_else (fullText ec) [])"

definition extractSourceContent :: "source_document \<Rightarrow> string list option \<Rightarrow> string" where
  "extractSourceContent document sectionKeys =
     (if or_empty sectionKeys = [] then doc_fullText document
      else
        (let contents = concat (map (section_texts (doc_sections document)) (or_empty sectionKeys))
         in if contents = [] then doc_fullText document
            else join [CHR 0x0A, CHR 0x0A] contents))"


section \<open>Generating one section\<close>

definition insufficient_single :: section_result where
  "insufficient_single =
     \<lparr>success = Some False,
      content = Some ''[Insufficient source content for this section]'',
      warnings = [''No relevant content found in source document''],
      sourceRefs = []\<rparr>"

definition insufficient_multi :: section_result where
  "insufficient_multi =
     \<lparr>success = Some False,
      content = Some ''[Insufficient source content across documents]'',
      warnings = [''No relevant content found in source documents''],
      sourceRefs = []\<rparr>"

definition generateSingleDocSection ::
  "ai \<Rightarrow> section_config \<Rightarrow> source_document \<Rightarrow> string \<Rightarrow> string option \<Rightarrow> gen_step" where
  "generateSingleDocSection a sectionConfig document purp globalInstructions =
     (let sourceContent =
            extractSourceContent document (sourceSections (sourceMapping sectionConfig))
      in if sourceContent = [] \<or> length (trim sourceContent) < 50 then Done insufficient_single
         else
           (let (truncatedContent, truncated) = truncateForContext sourceContent 100000;
                req = \<lparr>rw_sectionTitle = templateSectionTitle sectionConfig,
                       rw_sourceContent = truncatedContent,
                       rw_instructions = instructions sectionConfig,
                       rw_globalInstructions = globalInstructions,
                       rw_targetLength = targetLength sectionConfig,
                       rw_purpose = purp,
                       rw_documentMetadata = metadata document\<rparr>
            in AwaitModel (SectionRewrite req) (buildSectionRewritePrompt a req)
                 (\<lambda>response.
                    let p = parseSectionContent a response (templateSectionTitle sectionConfig)
                    in \<lparr>success = p_success p,
                        content = p_content p,
                        warnings = or_empty (p_warnings p) @
                          (if truncated then [''Source content was truncated due to length'']
                           else []),
                        sourceRefs =
                          [\<lparr>documentId = doc_id document,
                            ref_sections = sourceSections (sourceMapping sectionConfig)\<rparr>]\<rparr>)))"

definition docsToUse :: "section_config \<Rightarrow> source_document list \<Rightarrow> source_document list" where
  "docsToUse sectionConfig docs =
     (if ''all'' \<in> set (sourceDocuments (sourceMapping sectionConfig)) then docs
      else filter (\<lambda>d. doc_id d \<in> set (sourceDocuments (sourceMapping sectionConfig))) docs)"

definition doc_title :: "source_document \<Rightarrow> string" where
  "doc_title doc =
     (case metadata doc of None \<Rightarrow> filename doc | Some m \<Rightarrow> or_else (md_title m) (filename doc))"

definition doc_authors :: "source_document \<Rightarrow> string list" where
  "doc_authors doc = (case metadata doc of None \<Rightarrow> [] | Some m \<Rightarrow> or_empty (md_authors m))"

definition docContents :: "section_config \<Rightarrow> source_document list \<Rightarrow> doc_content list" where
  "docContents sectionConfig docs =
     filter (\<lambda>d. length (dc_content d) > 50)
       (map (\<lambda>doc. \<lparr>dc_title = doc_title doc,
                    dc_authors = doc_authors doc,
                    dc_content =
                      extractSourceContent doc (sourceSections (sourceMapping sectionConfig))\<rparr>)
            (docsToUse sectionConfig docs))"

definition generateMultiDocSection ::
  "ai \<Rightarrow> section_config \<Rightarrow> source_document list \<Rightarrow> string \<Rightarrow> string option \<Rightarrow> gen_step" where
  "generateMultiDocSection a sectionConfig docs purp globalInstructions =
     (let dcs = docContents sectionConfig docs
      in if length dcs = 0 then Done insufficient_multi
         else
           (let req = \<lparr>mu_sectionTitle = templateSectionTitle sectionConfig,
                       mu_documents = dcs,
                       mu_instructions = instructions sectionConfig,
                       mu_globalInstructions = globalInstructions,
                       mu_targetLength =
                         (if purp = ''comparative'' then None else targetLength sectionConfig),
                       mu_purpose = (if purp = ''comparative'' then None else Some purp)\<rparr>;
                k = (\<lambda>response.
                       let p = parseMultiDocResponse a response (length dcs)
                       in \<lparr>success = Some (p_success p \<noteq> Some False),
                           content = p_content p,
                           warnings = or_empty (p_warnings p),
                           sourceRefs =
                             map (\<lambda>doc. \<lparr>documentId = doc_id doc,
                                          ref_sections =
                                            sourceSections (sourceMapping sectionConfig)\<rparr>)
                                 (docsToUse sectionConfig docs)\<rparr>)
            in if purp = ''comparative''
               then AwaitModel (ComparativeAnalysis req) (buildComparativeAnalysisPrompt a req) k
               else AwaitModel (MultiDocumentSynthesis req)
                      (buildMultiDocumentSynthesisPrompt a req) k))"


section \<open>Collecting references\<close>

record reference_entry =
  re_id :: string
  re_index :: nat
  re_sourceDocumentId :: string
  re_sourceRefId :: string
  re_authors :: "string list option"
  re_title :: "string option"
  re_year :: "js_year option"
  re_journal :: "string option"
  re_doi :: "string option"
  re_formatted :: string

text \<open>\<open>ref.year || 'n.d.'\<close> inside the template literal: an absent year, the number 0
  and the empty text give \<open>n.d.\<close>; a number is written in decimal.\<close>

definition year_text :: "js_year option \<Rightarrow> string" where
  "year_text y =
     (case y of
        None \<Rightarrow> ''n.d.''
      | Some (Year_number n) \<Rightarrow> if n = 0 then ''n.d.'' else string_of_nat n
      | Some (Year_text t) \<Rightarrow> if t = [] then ''n.d.'' else t)"

definition formatReference :: "reference \<Rightarrow> string" where
  "formatReference r =
     (let authors = or_else (map_option (join '', '') (ref_authors r)) ''Unknown'';
          year = year_text (ref_year r);
          title = or_else (ref_title r) ''Untitled'';
          journal = (if truthy (ref_journal r) then ''. '' @ or_else (ref_journal r) [] else [])
      in authors @ '' ('' @ year @ ''). '' @ title @ journal @ ''.'')"

definition make_entry :: "nat \<Rightarrow> source_document \<Rightarrow> reference \<Rightarrow> reference_entry" where
  "make_entry refIndex doc r =
     \<lparr>re_id = ''ref_'' @ string_of_nat refIndex,
      re_index = refIndex,
      re_sourceDocumentId = doc_id doc,
      re_sourceRefId = ref_id r,
      re_authors = ref_authors r,
      re_title = ref_title r,
      re_year = ref_year r,
      re_journal = ref_journal r,
      re_doi = ref_doi r,
      re_formatted = or_else (rawText r) (formatReference r)\<rparr>"

text \<open>The two nested loops of \<open>collectReferences\<close>, with the accumulator \<open>allRefs\<close> and
  the counter \<open>refIndex\<close> as state.\<close>

fun collect_doc ::
  "source_document \<Rightarrow> reference list \<Rightarrow> reference_entry list \<times> nat \<Rightarrow> reference_entry list \<times> nat"
  where
  "collect_doc doc [] (allRefs, refIndex) = (allRefs, refIndex)"
| "collect_doc doc (r # rs) (allRefs, refIndex) =
     collect_doc doc rs (allRefs @ [make_entry refIndex doc r], refIndex + 1)"

fun collect_docs ::
  "source_document list \<Rightarrow> reference_entry list \<times> nat \<Rightarrow> reference_entry list \<times> nat" where
  "collect_docs [] acc = acc"
| "collect_docs (doc # docs) acc =
     collect_docs docs (collect_doc doc (or_empty (references doc)) acc)"

definition collectReferences :: "source_document list \<Rightarrow> reference_entry list" where
  "collectReferences docs = fst (collect_docs docs ([], 1))"


section \<open>The generation run\<close>

text \<open>
  A run of \<open>generateProjectContent\<close> is modelled by the sequence of its effects on the
  outside world, in the order in which they happen, together with the way the returned
  promise settles. The outside world is a parameter (\<open>env\<close>): how each model call
  settles, which store call rejects, whether a listener is registered for the \<open>error\<close>
  event when it is emitted, and in which order the sections of a batch complete.

  Time stamps (\<open>startedAt\<close>, \<open>completedAt\<close>, \<open>failedAt\<close>) and console output are left
  out. Listeners that are registered are taken not to throw.
\<close>

datatype project_status = St_draft | St_generating | St_ready

type_synonym section_error = "string \<times> string"

datatype progress =
    Progress (totalSections: nat) (completedSections: nat)
      (currentSection: "string option") (errors: "section_error list")
  | Failure (error: string)

datatype event =
    Ev_progress string nat nat string
  | Ev_section_complete string string string string "bool option"
  | Ev_error string "string option" string bool
  | Ev_complete string string nat "section_error list"

record draft_section =
  ds_templateSectionId :: string
  ds_templateSectionTitle :: string
  ds_content :: "string option"
  ds_sourceRefs :: "source_ref list"
  ds_warnings :: "string list"

text \<open>\<open>SectionStart i\<close> and \<open>SectionEnd i\<close> mark the call of \<open>processSection\<close> for the
  section at index \<open>i\<close> of the mapping and the settling of the promise it returned.\<close>

datatype effect =
    UpdateProjectStatus project_status progress
  | CreateDraft string
  | SectionStart nat
  | GenerateContent nat string
  | UpdateDraftSection string draft_section
  | Emit event
  | SectionEnd nat
  | UpdateDraftReferences string "reference_entry list"

text \<open>An exception is an \<open>Error\<close> with a message, or the error that Node's
  \<open>EventEmitter.emit\<close> throws when the event is \<open>error\<close> and no listener is registered
  for it; the message of the latter renders the payload (\<open>inspect\<close>).\<close>

datatype js_error = Error string | ERR_UNHANDLED_ERROR event

text \<open>How a call of the model client settles: it resolves with a text or rejects with a
  message, so many milliseconds after it was made, or it never settles.\<close>

datatype model_outcome =
    Responds nat string
  | Fails nat string
  | Never

definition SECTION_TIMEOUT_MS :: nat where
  "SECTION_TIMEOUT_MS = 300000"

datatype store_call =
    Call_initStatus
  | Call_createDraft
  | Call_sectionWrite nat
  | Call_placeholderWrite nat
  | Call_sectionStatus nat
  | Call_references
  | Call_readyStatus
  | Call_rollbackStatus

record env =
  helpers :: ai
  generateContent :: "nat \<Rightarrow> string \<Rightarrow> model_outcome"
  store_error :: "store_call \<Rightarrow> string option"
  new_draft_id :: string
  error_listener :: "nat option \<Rightarrow> bool"
  completion_rank :: "nat \<Rightarrow> nat"
  inspect :: "event \<Rightarrow> string"

definition message :: "env \<Rightarrow> js_error \<Rightarrow> string" where
  "message e x =
     (case x of Error m \<Rightarrow> m
      | ERR_UNHANDLED_ERROR ev \<Rightarrow> ''Unhandled error. ('' @ inspect e ev @ '')'')"

record section_summary =
  ss_sectionId :: string
  ss_sectionTitle :: string
  ss_success :: "bool option"
  ss_wordCount :: nat

record results =
  draftId :: string
  res_sections :: "section_summary list"
  res_errors :: "section_error list"
  res_warnings :: "string list"

record run_state =
  trace :: "effect list"
  res :: results

definition do_effect :: "effect \<Rightarrow> run_state \<Rightarrow> run_state" where
  "do_effect x st = st\<lparr>trace := trace st @ [x]\<rparr>"

definition CONCURRENCY :: nat where
  "CONCURRENCY = 3"

definition slice :: "'a list \<Rightarrow> nat \<Rightarrow> nat \<Rightarrow> 'a list" where
  "slice xs i j = take (j - i) (drop i xs)"

subsection \<open>One section\<close>

text \<open>The generation promise of a section: in single-document mode \<open>documents[0]\<close> is
  read, and reading a property of \<open>undefined\<close> throws.\<close>

definition generationPromise :: "env \<Rightarrow> project \<Rightarrow> section_config \<Rightarrow> js_error + gen_step" where
  "generationPromise e p sectionConfig =
     (if mode p = ''single'' then
        (case documents p of
           [] \<Rightarrow> Inl (Error ''Cannot read properties of undefined (reading 'extracted_content')'')
         | d # _ \<Rightarrow>
             Inr (generateSingleDocSection (helpers e) sectionConfig d (purpose p)
                    (global_instructions p)))
      else Inr (generateMultiDocSection (helpers e) sectionConfig (documents p) (purpose p)
                  (global_instructions p)))"

text \<open>\<open>Promise.race([generationPromise, timeoutPromise])\<close>. The timer is set before the
  model call is made; a call that has not settled when the timer fires loses the race,
  and what it settles to later is not looked at. A generator that returns or throws
  without awaiting the model wins.\<close>

definition race :: "env \<Rightarrow> project \<Rightarrow> nat \<Rightarrow> section_config \<Rightarrow> js_error + section_result" where
  "race e p index sectionConfig =
     (case generationPromise e p sectionConfig of
        Inl x \<Rightarrow> Inl x
      | Inr (Done r) \<Rightarrow> Inr r
      | Inr (AwaitModel req prompt k) \<Rightarrow>
          (case generateContent e index prompt of
             Responds t response \<Rightarrow>
               if t < SECTION_TIMEOUT_MS then Inr (k response)
               else Inl (Error ''Generation timed out'')
           | Fails t m \<Rightarrow>
               if t < SECTION_TIMEOUT_MS then Inl (Error m)
               else Inl (Error ''Generation timed out'')
           | Never \<Rightarrow> Inl (Error ''Generation timed out'')))"

text \<open>The synchronous first part of \<open>processSection\<close>: the \<open>progress\<close> event and the
  start of the model call.\<close>

definition section_begin :: "env \<Rightarrow> project \<Rightarrow> nat \<times> section_config \<Rightarrow> run_state \<Rightarrow> run_state" where
  "section_begin e p ic st =
     (let st1 = do_effect (SectionStart (fst ic)) st;
          st2 = do_effect (Emit (Ev_progress (projectId p) (length (section_mapping p))
                  (length (res_sections (res st))) (templateSectionTitle (snd ic)))) st1
      in case generationPromise e p (snd ic) of
           Inr (AwaitModel req prompt k) \<Rightarrow> do_effect (GenerateContent (fst ic) prompt) st2
         | _ \<Rightarrow> st2)"

text \<open>The \<open>finally\<close> block; \<open>pending\<close> is the exception on its way out of the \<open>catch\<close>
  block, if any. An exception of the \<open>finally\<close> block replaces it.\<close>

definition section_finally ::
  "env \<Rightarrow> project \<Rightarrow> nat \<Rightarrow> js_error option \<Rightarrow> run_state \<Rightarrow> run_state \<times> js_error option" where
  "section_finally e p index pending st =
     (case store_error e (Call_sectionStatus index) of
        Some m \<Rightarrow> (do_effect (SectionEnd index) st, Some (Error m))
      | None \<Rightarrow>
          (do_effect (SectionEnd index)
             (do_effect
                (UpdateProjectStatus St_generating
                   (Progress (length (section_mapping p)) (length (res_sections (res st)))
                      (Some (''Processing... ('' @ string_of_nat (length (res_sections (res st)))
                             @ ''/'' @ string_of_nat (length (section_mapping p)) @ '')''))
                      (res_errors (res st)))) st),
           pending))"

definition placeholder :: "section_config \<Rightarrow> string \<Rightarrow> draft_section" where
  "placeholder sectionConfig msg =
     \<lparr>ds_templateSectionId = templateSectionId sectionConfig,
      ds_templateSectionTitle = templateSectionTitle sectionConfig,
      ds_content = Some (''[Generation failed: '' @ msg @ ''. Please edit manually.]''),
      ds_sourceRefs = [],
      ds_warnings = [msg]\<rparr>"

text \<open>The \<open>catch\<close> block.\<close>

definition section_catch ::
  "env \<Rightarrow> project \<Rightarrow> nat \<times> section_config \<Rightarrow> js_error \<Rightarrow> run_state \<Rightarrow> run_state \<times> js_error option"
  where
  "section_catch e p ic sectionError st =
     (let msg = message e sectionError;
          st1 = st\<lparr>res := (res st)\<lparr>res_errors :=
                   res_errors (res st) @ [(templateSectionTitle (snd ic), msg)]\<rparr>\<rparr>;
          ev = Ev_error (projectId p) (Some (templateSectionTitle (snd ic))) msg True
      in if \<not> error_listener e (Some (fst ic))
         then section_finally e p (fst ic) (Some (ERR_UNHANDLED_ERROR ev)) st1
         else
           (let st2 = do_effect (Emit ev) st1
            in case store_error e (Call_placeholderWrite (fst ic)) of
                 Some m \<Rightarrow> section_finally e p (fst ic) (Some (Error m)) st2
               | None \<Rightarrow>
                   section_finally e p (fst ic) None
                     (do_effect (UpdateDraftSection (draftId (res st))
                        (placeholder (snd ic) msg)) st2)))"

definition wordCount :: "string option \<Rightarrow> nat" where
  "wordCount c = (case c of None \<Rightarrow> 0 | Some s \<Rightarrow> split_ws_length s)"

definition preview :: "string option \<Rightarrow> string" where
  "preview c = (case c of None \<Rightarrow> [] | Some s \<Rightarrow> take 200 s)"

text \<open>The rest of \<open>processSection\<close>, from the moment the race settles.\<close>

definition section_complete ::
  "env \<Rightarrow> project \<Rightarrow> nat \<times> section_config \<Rightarrow> run_state \<Rightarrow> run_state \<times> js_error option" where
  "section_complete e p ic st =
     (case race e p (fst ic) (snd ic) of
        Inl sectionError \<Rightarrow> section_catch e p ic sectionError st
      | Inr sectionResult \<Rightarrow>
          (case store_error e (Call_sectionWrite (fst ic)) of
             Some m \<Rightarrow> section_catch e p ic (Error m) st
           | None \<Rightarrow>
               (let st1 = do_effect (UpdateDraftSection (draftId (res st))
                            \<lparr>ds_templateSectionId = templateSectionId (snd ic),
                             ds_templateSectionTitle = templateSectionTitle (snd ic),
                             ds_content = content sectionResult,
                             ds_sourceRefs = sourceRefs sectionResult,
                             ds_warnings = warnings sectionResult\<rparr>) st;
                    st2 = st1\<lparr>res := (res st1)\<lparr>res_sections := res_sections (res st1) @
                            [\<lparr>ss_sectionId = templateSectionId (snd ic),
                              ss_sectionTitle = templateSectionTitle (snd ic),
                              ss_success = success sectionResult,
                              ss_wordCount = wordCount (content sectionResult)\<rparr>]\<rparr>\<rparr>;
                    st3 = do_effect (Emit (Ev_section_complete (projectId p)
                            (templateSectionId (snd ic)) (templateSectionTitle (snd ic))
                            (preview (content sectionResult)) (success sectionResult))) st2;
                    st4 = st3\<lparr>res := (res st3)\<lparr>res_warnings := res_warnings (res st3) @
                            map (\<lambda>w. templateSectionTitle (snd ic) @ '': '' @ w)
                                (warnings sectionResult)\<rparr>\<rparr>
                in section_finally e p (fst ic) None st4)))"

subsection \<open>Batches\<close>

text \<open>
  \<open>batch.map\<close> calls \<open>processSection\<close> on the sections of the batch in order, and each
  call runs up to its first suspension. The sections then complete one at a time, in the
  order of their \<open>completion_rank\<close> (any order can be chosen this way); each completion
  runs to the end of \<open>processSection\<close>. \<open>Promise.all\<close> rejects with the first exception
  that leaves a \<open>processSection\<close>; the sections of the batch that have not completed by
  then stay in flight.
\<close>

definition completion_order :: "env \<Rightarrow> (nat \<times> section_config) list \<Rightarrow> (nat \<times> section_config) list"
  where
  "completion_order e ics = sort_key (\<lambda>ic. completion_rank e (fst ic)) ics"

fun complete_all ::
  "env \<Rightarrow> project \<Rightarrow> (nat \<times> section_config) list \<Rightarrow> run_state \<Rightarrow>
   run_state \<times> (js_error \<times> (nat \<times> section_config) list) option" where
  "complete_all e p [] st = (st, None)"
| "complete_all e p (ic # ics) st =
     (case section_complete e p ic st of
        (st', None) \<Rightarrow> complete_all e p ics st'
      | (st', Some x) \<Rightarrow> (st', Some (x, ics)))"

definition promise_all ::
  "env \<Rightarrow> project \<Rightarrow> nat \<Rightarrow> section_config list \<Rightarrow> run_state \<Rightarrow>
   run_state \<times> (js_error \<times> (nat \<times> section_config) list) option" where
  "promise_all e p i batch st =
     (let ics = zip [i..<i + length batch] batch
      in complete_all e p (completion_order e ics) (fold (section_begin e p) ics st))"

function batch_loop ::
  "env \<Rightarrow> project \<Rightarrow> nat \<Rightarrow> run_state \<Rightarrow>
   run_state \<times> (js_error \<times> (nat \<times> section_config) list) option" where
  "batch_loop e p i st =
     (if i < length (section_mapping p) then
        (case promise_all e p i (slice (section_mapping p) i (i + CONCURRENCY)) st of
           (st', None) \<Rightarrow> batch_loop e p (i + CONCURRENCY) st'
         | (st', Some x) \<Rightarrow> (st', Some x))
      else (st, None))"
  by pat_completeness auto
termination
  by (relation "measure (\<lambda>(e, p, i, st). length (section_mapping p) - i)")
     (auto simp: CONCURRENCY_def)

declare batch_loop.simps [simp del]

text \<open>Sections left in flight by a rejected \<open>Promise.all\<close> run to their end; what they
  throw is handled by \<open>Promise.all\<close> and dropped.\<close>

fun drain :: "env \<Rightarrow> project \<Rightarrow> (nat \<times> section_config) list \<Rightarrow> run_state \<Rightarrow> run_state" where
  "drain e p [] st = st"
| "drain e p (ic # ics) st = drain e p ics (fst (section_complete e p ic st))"

subsection \<open>The run\<close>

record run =
  effects :: "effect list"
  outcome :: "js_error + results"

text \<open>The outer \<open>catch\<close> block, which runs as soon as \<open>Promise.all\<close> has rejected,
  followed by the sections that were still in flight.\<close>

definition run_catch ::
  "env \<Rightarrow> project \<Rightarrow> js_error \<Rightarrow> (nat \<times> section_config) list \<Rightarrow> run_state \<Rightarrow> run" where
  "run_catch e p x inflight st =
     (case store_error e Call_rollbackStatus of
        Some m \<Rightarrow> \<lparr>effects = trace (drain e p inflight st), outcome = Inl (Error m)\<rparr>
      | None \<Rightarrow>
          (let st1 = do_effect (UpdateProjectStatus St_draft (Failure (message e x))) st;
               ev = Ev_error (projectId p) None (message e x) False
           in if error_listener e None
              then \<lparr>effects = trace (drain e p inflight (do_effect (Emit ev) st1)),
                    outcome = Inl x\<rparr>
              else \<lparr>effects = trace (drain e p inflight st1),
                    outcome = Inl (ERR_UNHANDLED_ERROR ev)\<rparr>))"

definition generateProjectContent :: "env \<Rightarrow> project \<Rightarrow> run" where
  "generateProjectContent e p =
     (case store_error e Call_initStatus of
        Some m \<Rightarrow> \<lparr>effects = [], outcome = Inl (Error m)\<rparr>
      | None \<Rightarrow>
          (let t1 = [UpdateProjectStatus St_generating
                       (Progress (length (section_mapping p)) 0 None [])]
           in case store_error e Call_createDraft of
                Some m \<Rightarrow> \<lparr>effects = t1, outcome = Inl (Error m)\<rparr>
              | None \<Rightarrow>
                  (let st0 = \<lparr>trace = t1 @ [CreateDraft (new_draft_id e)],
                              res = \<lparr>draftId = new_draft_id e, res_sections = [],
                                     res_errors = [], res_warnings = []\<rparr>\<rparr>
                   in case batch_loop e p 0 st0 of
                        (st, Some (x, inflight)) \<Rightarrow> run_catch e p x inflight st
                      | (st, None) \<Rightarrow>
                          (case store_error e Call_references of
                             Some m \<Rightarrow> run_catch e p (Error m) [] st
                           | None \<Rightarrow>
                               (let st1 = do_effect (UpdateDraftReferences (draftId (res st))
                                            (collectReferences (documents p))) st
                                in case store_error e Call_readyStatus of
                                     Some m \<Rightarrow> run_catch e p (Error m) [] st1
                                   | None \<Rightarrow>
                                       (let st2 = do_effect (UpdateProjectStatus St_ready
                                                    (Progress (length (section_mapping p))
                                                       (length (section_mapping p)) None
                                                       (res_errors (res st1)))) st1;
                                            st3 = do_effect (Emit (Ev_complete (projectId p)
                                                    (draftId (res st2))
                                                    (length (res_sections (res st2)))
                                                    (res_errors (res st2)))) st2
                                        in \<lparr>effects = trace st3,
                                            outcome = Inr (res st3)\<rparr>))))))"


section \<open>Notions used in the statements\<close>

text \<open>The lengths of the source contents that a generator hands to a prompt builder.\<close>

primrec prompt_source_lengths :: "gen_step \<Rightarrow> nat list" where
  "prompt_source_lengths (Done r) = []"
| "prompt_source_lengths (AwaitModel req prompt k) =
     (case req of
        SectionRewrite a \<Rightarrow> [length (rw_sourceContent a)]
      | ComparativeAnalysis a \<Rightarrow> map (\<lambda>d. length (dc_content d)) (mu_documents a)
      | MultiDocumentSynthesis a \<Rightarrow> map (\<lambda>d. length (dc_content d)) (mu_documents a))"

text \<open>The sections started and the sections ended in a trace, in order.\<close>

definition starts :: "effect list \<Rightarrow> nat list" where
  "starts tr = concat (map (\<lambda>x. case x of SectionStart i \<Rightarrow> [i] | _ \<Rightarrow> []) tr)"

definition ends :: "effect list \<Rightarrow> nat list" where
  "ends tr = concat (map (\<lambda>x. case x of SectionEnd i \<Rightarrow> [i] | _ \<Rightarrow> []) tr)"

text \<open>A trace has the shape \<open>(i, k)\<close> when the batch that begins at index \<open>i\<close> is the
  current one, \<open>k\<close> of its sections have started, and every section before \<open>i\<close> has
  ended.\<close>

definition shape :: "nat \<Rightarrow> nat \<Rightarrow> nat \<Rightarrow> effect list \<Rightarrow> bool" where
  "shape L i k tr \<longleftrightarrow>
     CONCURRENCY dvd i \<and> k \<le> CONCURRENCY \<and> i + k \<le> L \<and>
     starts tr = [0..<i + k] \<and> {0..<i} \<subseteq> set (ends tr)"

definition all_shaped :: "nat \<Rightarrow> effect list \<Rightarrow> bool" where
  "all_shaped L tr \<longleftrightarrow> (\<forall>n. \<exists>i k. shape L i k (take n tr))"

definition progress_ok :: "effect \<Rightarrow> bool" where
  "progress_ok x =
     (case x of
        UpdateProjectStatus s pl \<Rightarrow>
          (case pl of Progress t c cur errs \<Rightarrow> c \<le> t | Failure m \<Rightarrow> True)
      | _ \<Rightarrow> True)"

text \<open>The effects of a run that is still under way: a status update keeps the status
  \<open>generating\<close>, and the event is not \<open>complete\<close>.\<close>

definition unfinished :: "effect \<Rightarrow> bool" where
  "unfinished x =
     (case x of
        UpdateProjectStatus s pl \<Rightarrow> s = St_generating
      | Emit ev \<Rightarrow> (case ev of Ev_complete pid d n errs \<Rightarrow> False | _ \<Rightarrow> True)
      | _ \<Rightarrow> True)"


text \<open>Effects other than the write of the references, and the effects that close a run:
  status updates and events.\<close>

definition no_refs :: "effect \<Rightarrow> bool" where
  "no_refs x = (case x of UpdateDraftReferences d rs \<Rightarrow> False | _ \<Rightarrow> True)"

definition closing :: "effect \<Rightarrow> bool" where
  "closing x = (case x of UpdateProjectStatus s pl \<Rightarrow> True | Emit ev \<Rightarrow> True | _ \<Rightarrow> False)"


text \<open>A model call that has not settled when the timer of its section fires.\<close>

definition timed_out :: "model_outcome \<Rightarrow> bool" where
  "timed_out r =
     (case r of
        Responds t response \<Rightarrow> SECTION_TIMEOUT_MS \<le> t
      | Fails t m \<Rightarrow> SECTION_TIMEOUT_MS \<le> t
      | Never \<Rightarrow> True)"


section \<open>Example inputs\<close>

definition stub_ai :: ai where
  "stub_ai =
     \<lparr>buildSectionRewritePrompt = (\<lambda>r. ''Rewrite: '' @ rw_sectionTitle r),
      buildComparativeAnalysisPrompt = (\<lambda>r. ''Compare: '' @ mu_sectionTitle r),
      buildMultiDocumentSynthesisPrompt = (\<lambda>r. ''Synthesise: '' @ mu_sectionTitle r),
      parseSectionContent = (\<lambda>response title.
         \<lparr>p_success = Some True, p_content = Some response, p_warnings = Some []\<rparr>),
      parseMultiDocResponse = (\<lambda>response n.
         \<lparr>p_success = Some True, p_content = Some response, p_warnings = Some []\<rparr>)\<rparr>"

definition sec :: "string \<Rightarrow> string \<Rightarrow> section_config" where
  "sec i t =
     \<lparr>templateSectionId = i, templateSectionTitle = t,
      sourceMapping = \<lparr>sourceSections = None, sourceDocuments = [''all'']\<rparr>,
      instructions = None, targetLength = None\<rparr>"

definition sec_keys :: "string \<Rightarrow> string \<Rightarrow> string list \<Rightarrow> section_config" where
  "sec_keys i t keys =
     \<lparr>templateSectionId = i, templateSectionTitle = t,
      sourceMapping = \<lparr>sourceSections = Some keys, sourceDocuments = [''all'']\<rparr>,
      instructions = None, targetLength = None\<rparr>"

definition paper_text :: string where
  "paper_text = ''Deep learning has transformed natural language processing in recent years.''"

definition paper :: source_document where
  "paper =
     \<lparr>doc_id = ''doc-1'', filename = ''paper.pdf'',
      extracted_content = Some
        \<lparr>sections = Some [''abstract'' \<mapsto> \<lparr>sec_text = Some ''We study attention.''\<rparr>,
                           ''methods'' \<mapsto> \<lparr>sec_text = Some []\<rparr>],
         fullText = Some paper_text\<rparr>,
      metadata = None, references = None\<rparr>"

definition memo :: source_document where
  "memo =
     \<lparr>doc_id = ''doc-2'', filename = ''memo.pdf'',
      extracted_content = Some \<lparr>sections = None, fullText = Some ''Too short to use.''\<rparr>,
      metadata = None, references = None\<rparr>"

definition big_paper :: source_document where
  "big_paper =
     \<lparr>doc_id = ''doc-3'', filename = ''big.pdf'',
      extracted_content = Some
        \<lparr>sections = None, fullText = Some (replicate 100001 (CHR ''a''))\<rparr>,
      metadata = None, references = None\<rparr>"




definition proj1 :: project where
  "proj1 =
     \<lparr>projectId = ''p1'', mode = ''single'', purpose = ''summary'', documents = [paper],
      section_mapping = [sec ''s1'' ''Intro''],
      global_instructions = None\<rparr>"

definition proj2 :: project where
  "proj2 =
     \<lparr>projectId = ''p1'', mode = ''single'', purpose = ''summary'', documents = [paper],
      section_mapping = [sec ''s1'' ''Intro'', sec ''s2'' ''Methods''],
      global_instructions = None\<rparr>"

definition proj4 :: project where
  "proj4 =
     \<lparr>projectId = ''p1'', mode = ''single'', purpose = ''summary'', documents = [paper],
      section_mapping =
        [sec ''s1'' ''Intro'', sec ''s2'' ''Methods'', sec ''s3'' ''Results'', sec ''s4'' ''End''],
      global_instructions = None\<rparr>"

text \<open>The model call of the first section fails and the others answer; the store never
  fails; a client is listening to the \<open>error\<close> event.\<close>

definition watched_env :: env where
  "watched_env =
     \<lparr>helpers = stub_ai,
      generateContent =
        (\<lambda>i prompt. if i = 0 then Fails 200 ''quota exceeded''
                     else Responds 1500 ''Generated text.''),
      store_error = (\<lambda>c. None),
      new_draft_id = ''d1'',
      error_listener = (\<lambda>i. True),
      completion_rank = (\<lambda>i. i),
      inspect = (\<lambda>ev. ''[object]'')\<rparr>"

text \<open>The same, with no client connected to the status stream.\<close>

definition unwatched_env :: env where
  "unwatched_env = watched_env\<lparr>error_listener := (\<lambda>i. False)\<rparr>"

text \<open>Every model call answers, that of the first section well before the others; the
  progress update at the end of the first section is rejected by the store.\<close>

definition flaky_env :: env where
  "flaky_env =
     watched_env
       \<lparr>generateContent :=
          (\<lambda>i prompt. Responds (if i = 0 then 1500 else 9000) ''Generated text.''),
        store_error :=
          (\<lambda>c. if c = Call_sectionStatus 0 then Some ''connection reset'' else None)\<rparr>"

text \<open>The model call of the first section never settles and the others answer after a
  second and a half, so the first section is the last of its batch to complete; a client
  is listening to the \<open>error\<close> event.\<close>

definition stalled_env :: env where
  "stalled_env =
     watched_env
       \<lparr>generateContent :=
          (\<lambda>i prompt. if i = 0 then Never else Responds 1500 ''Generated text.''),
        completion_rank := (\<lambda>i. if i = 0 then 1 else 0)\<rparr>"

text \<open>The same, with no client connected to the status stream.\<close>

definition stalled_unwatched_env :: env where
  "stalled_unwatched_env = stalled_env\<lparr>error_listener := (\<lambda>i. False)\<rparr>"


text \<open>The store rejects the creation of the draft.\<close>

definition no_draft_env :: env where
  "no_draft_env =
     watched_env
       \<lparr>store_error := (\<lambda>c. if c = Call_createDraft then Some ''insert failed'' else None)\<rparr>"


section \<open>Source content and the prompt\<close>

lemma length_trim_le: "length (trim s) \<le> length s"
  unfolding trim_def
  by (metis length_rev length_dropWhile_le le_trans)

lemma truncate_fst: "fst (truncateForContext t n) = take n t"
  by (simp add: truncateForContext_def)

lemma doc_fullText_cases:
  "doc_fullText document =
     (case extracted_content document of None \<Rightarrow> []
      | Some ec \<Rightarrow> (case fullText ec of None \<Rightarrow> [] | Some t \<Rightarrow> t))"
  by (auto simp: doc_fullText_def or_else_def split: option.splits)

lemma concat_map_empty: "(\<forall>k\<in>set ks. f k = []) \<Longrightarrow> concat (map f ks) = []"
  by (induction ks) auto

lemma paper_text_trim: "trim paper_text = paper_text"
  by (simp add: trim_def paper_text_def is_space_def)

lemma paper_text_length: "length paper_text = 74"
  by (simp add: paper_text_def)

text \<open>
  Claim C10. For a non-empty list of section keys none of which names an extracted
  section with text, \<open>extractSourceContent\<close> returns the full text of the document, or
  the empty string when the document has none; and when that full text has at least 50
  characters after trimming, the single-document generator goes on to the model call with
  it instead of returning the insufficient-content result.
\<close>

theorem extractSourceContent_fallback:
  assumes "keys \<noteq> []"
    and "\<forall>key\<in>set keys. \<forall>s. doc_sections document key = Some s \<longrightarrow> \<not> truthy (sec_text s)"
  shows "extractSourceContent document (Some keys) =
           (case extracted_content document of None \<Rightarrow> []
            | Some ec \<Rightarrow> (case fullText ec of None \<Rightarrow> [] | Some t \<Rightarrow> t))
         \<and> (sourceSections (sourceMapping cfg) = Some keys \<and>
            50 \<le> length (trim (doc_fullText document)) \<longrightarrow>
            (\<exists>req prompt k.
               generateSingleDocSection a cfg document purp gi =
                 AwaitModel (SectionRewrite req) prompt k \<and>
               rw_sourceContent req = take 100000 (doc_fullText document)))"
proof (intro conjI impI)
  have "\<forall>key\<in>set keys. section_texts (doc_sections document) key = []"
    using assms(2) by (auto simp: section_texts_def truthy_def split: option.splits)
  then have e: "concat (map (section_texts (doc_sections document)) keys) = []"
    by (rule concat_map_empty)
  have x: "extractSourceContent document (Some keys) = doc_fullText document"
    using assms(1) e by (simp add: extractSourceContent_def or_empty_def)
  then show "extractSourceContent document (Some keys) =
           (case extracted_content document of None \<Rightarrow> []
            | Some ec \<Rightarrow> (case fullText ec of None \<Rightarrow> [] | Some t \<Rightarrow> t))"
    by (simp add: doc_fullText_cases)
  assume h: "sourceSections (sourceMapping cfg) = Some keys \<and>
             50 \<le> length (trim (doc_fullText document))"
  then have ne: "doc_fullText document \<noteq> []"
    by (auto simp: trim_def)
  show "\<exists>req prompt k.
          generateSingleDocSection a cfg document purp gi =
            AwaitModel (SectionRewrite req) prompt k \<and>
          rw_sourceContent req = take 100000 (doc_fullText document)"
    using h x ne
    by (simp add: generateSingleDocSection_def Let_def split_def truncate_fst)
qed

theorem extractSourceContent_fallback_witness:
  "[''methods'', ''results''] \<noteq> [] \<and>
   doc_sections paper ''methods'' = Some \<lparr>sec_text = Some []\<rparr> \<and>
   doc_sections paper ''results'' = None \<and>
   extractSourceContent paper (Some [''methods'', ''results'']) = paper_text \<and>
   (\<exists>req prompt k.
      generateSingleDocSection stub_ai (sec_keys ''s1'' ''Intro'' [''methods'', ''results''])
        paper ''summary'' None = AwaitModel (SectionRewrite req) prompt k \<and>
      rw_sourceContent req = paper_text)"
  using extractSourceContent_fallback
          [of "[''methods'', ''results'']" paper
              "sec_keys ''s1'' ''Intro'' [''methods'', ''results'']" stub_ai "''summary''" None]
  by (simp add: paper_def doc_sections_def doc_fullText_def or_else_def truthy_def
        sec_keys_def paper_text_trim paper_text_length)

text \<open>
  Claim C7. When the source text extracted for a section is shorter than 50 characters
  (in multi-document mode: for every document the section uses), the generator returns
  the insufficient-content result, whose success flag is false, and makes no model call.
\<close>

theorem insufficient_content_short_circuit:
  "(length (extractSourceContent document (sourceSections (sourceMapping cfg))) < 50 \<longrightarrow>
      generateSingleDocSection a cfg document purp gi = Done insufficient_single \<and>
      success insufficient_single = Some False \<and>
      model_prompts (generateSingleDocSection a cfg document purp gi) = [])
   \<and>
   ((\<forall>d\<in>set (docsToUse cfg docs).
        length (extractSourceContent d (sourceSections (sourceMapping cfg))) < 50) \<longrightarrow>
      generateMultiDocSection a cfg docs purp gi = Done insufficient_multi \<and>
      success insufficient_multi = Some False \<and>
      model_prompts (generateMultiDocSection a cfg docs purp gi) = [])"
proof (intro conjI impI)
  assume h: "length (extractSourceContent document (sourceSections (sourceMapping cfg))) < 50"
  have "length (trim (extractSourceContent document (sourceSections (sourceMapping cfg)))) < 50"
    using h length_trim_le le_less_trans by blast
  then show g: "generateSingleDocSection a cfg document purp gi = Done insufficient_single"
    by (simp add: generateSingleDocSection_def Let_def)
  show "success insufficient_single = Some False"
    by (simp add: insufficient_single_def)
  show "model_prompts (generateSingleDocSection a cfg document purp gi) = []"
    by (simp add: g)
next
  assume h: "\<forall>d\<in>set (docsToUse cfg docs).
        length (extractSourceContent d (sourceSections (sourceMapping cfg))) < 50"
  have "docContents cfg docs = []"
    using h by (auto simp: docContents_def filter_empty_conv)
  then show g: "generateMultiDocSection a cfg docs purp gi = Done insufficient_multi"
    by (simp add: generateMultiDocSection_def Let_def)
  show "success insufficient_multi = Some False"
    by (simp add: insufficient_multi_def)
  show "model_prompts (generateMultiDocSection a cfg docs purp gi) = []"
    by (simp add: g)
qed

lemma memo_content: "extractSourceContent memo None = ''Too short to use.''"
  by (simp add: extractSourceContent_def memo_def or_empty_def doc_fullText_def or_else_def)

theorem insufficient_content_short_circuit_witness:
  "length (extractSourceContent memo (sourceSections (sourceMapping (sec ''s1'' ''Intro'')))) < 50 \<and>
   generateSingleDocSection stub_ai (sec ''s1'' ''Intro'') memo ''summary'' None =
     Done insufficient_single \<and>
   model_prompts (generateSingleDocSection stub_ai (sec ''s1'' ''Intro'') memo ''summary'' None) = [] \<and>
   docsToUse (sec ''s1'' ''Intro'') [memo, memo] = [memo, memo] \<and>
   generateMultiDocSection stub_ai (sec ''s1'' ''Intro'') [memo, memo] ''summary'' None =
     Done insufficient_multi \<and>
   model_prompts (generateMultiDocSection stub_ai (sec ''s1'' ''Intro'') [memo, memo] ''summary'' None) = []"
  using insufficient_content_short_circuit
          [of memo "sec ''s1'' ''Intro''" stub_ai "''summary''" None "[memo, memo]"]
  by (simp add: sec_def memo_content docsToUse_def)

text \<open>In single-document mode the builder never receives more than 100000 characters of
  source content.\<close>

lemma single_doc_prompt_truncated:
  "\<forall>n\<in>set (prompt_source_lengths (generateSingleDocSection a cfg document purp gi)). n \<le> 100000"
  by (simp add: generateSingleDocSection_def Let_def split_def truncate_fst)

lemma not_space_a: "\<not> is_space (CHR ''a'')"
  by (simp add: is_space_def)

text \<open>
  Claim C6 says that in both modes the source content is cut to 100000 characters before
  the prompt is built. The single-document generator does so; the multi-document
  generator hands each document's content to the builder as extracted: for a document
  whose full text has 100001 characters the builder receives all 100001.
\<close>

theorem multi_doc_prompt_not_truncated:
  "prompt_source_lengths
     (generateMultiDocSection stub_ai (sec ''s1'' ''Intro'') [big_paper] ''full_report'' None)
     = [100001]
   \<and> prompt_source_lengths
       (generateSingleDocSection stub_ai (sec ''s1'' ''Intro'') big_paper ''full_report'' None)
     = [100000]"
  by (simp add: generateMultiDocSection_def generateSingleDocSection_def docContents_def
        docsToUse_def sec_def big_paper_def extractSourceContent_def or_empty_def
        doc_fullText_def or_else_def trim_def not_space_a truncateForContext_def Let_def)


section \<open>References\<close>






section \<open>Traces of a run\<close>

text \<open>
  The properties of a run are proved along its trace. Three facts are carried through
  \<open>processSection\<close>, the batches and the loop: every prefix of the trace has a shape
  (\<open>all_shaped\<close>), every progress update written so far is within its bound
  (\<open>progress_ok\<close>), and nothing written so far ends the run (\<open>unfinished\<close>).
\<close>

subsection \<open>Marks and shapes\<close>

lemma starts_simps [simp]:
  "starts [] = []"
  "starts (tr @ tr') = starts tr @ starts tr'"
  "starts (SectionStart i # tr) = i # starts tr"
  "starts (SectionEnd i # tr) = starts tr"
  "starts (UpdateProjectStatus s pl # tr) = starts tr"
  "starts (CreateDraft d # tr) = starts tr"
  "starts (GenerateContent i pr # tr) = starts tr"
  "starts (UpdateDraftSection d ds # tr) = starts tr"
  "starts (Emit ev # tr) = starts tr"
  "starts (UpdateDraftReferences d rs # tr) = starts tr"
  by (simp_all add: starts_def)

lemma ends_simps [simp]:
  "ends [] = []"
  "ends (tr @ tr') = ends tr @ ends tr'"
  "ends (SectionEnd i # tr) = i # ends tr"
  "ends (SectionStart i # tr) = ends tr"
  "ends (UpdateProjectStatus s pl # tr) = ends tr"
  "ends (CreateDraft d # tr) = ends tr"
  "ends (GenerateContent i pr # tr) = ends tr"
  "ends (UpdateDraftSection d ds # tr) = ends tr"
  "ends (Emit ev # tr) = ends tr"
  "ends (UpdateDraftReferences d rs # tr) = ends tr"
  by (simp_all add: ends_def)

lemma all_shaped_snoc:
  "all_shaped L (tr @ [x]) \<longleftrightarrow> all_shaped L tr \<and> (\<exists>i k. shape L i k (tr @ [x]))"
proof
  assume a: "all_shaped L (tr @ [x])"
  have "\<exists>i k. shape L i k (take n tr)" for n
  proof (cases "n \<le> length tr")
    case True
    then have "take n (tr @ [x]) = take n tr" by simp
    then show ?thesis using a unfolding all_shaped_def by metis
  next
    case False
    then have "take n tr = take (length tr) (tr @ [x])" by simp
    then show ?thesis using a unfolding all_shaped_def by metis
  qed
  moreover have "\<exists>i k. shape L i k (tr @ [x])"
    using a[unfolded all_shaped_def, rule_format, of "Suc (length tr)"] by simp
  ultimately show "all_shaped L tr \<and> (\<exists>i k. shape L i k (tr @ [x]))"
    by (simp add: all_shaped_def)
next
  assume a: "all_shaped L tr \<and> (\<exists>i k. shape L i k (tr @ [x]))"
  show "all_shaped L (tr @ [x])"
    unfolding all_shaped_def
  proof
    fix n
    show "\<exists>i k. shape L i k (take n (tr @ [x]))"
    proof (cases "n \<le> length tr")
      case True
      then show ?thesis using a by (simp add: all_shaped_def)
    next
      case False
      then show ?thesis using a by simp
    qed
  qed
qed

lemma all_shaped_shape: "all_shaped L tr \<Longrightarrow> \<exists>i k. shape L i k tr"
  unfolding all_shaped_def by (metis take_all order_refl)

lemma shape_quiet: "shape L i k tr \<Longrightarrow> starts [x] = [] \<Longrightarrow> shape L i k (tr @ [x])"
  by (auto simp: shape_def)

lemma all_shaped_quiet_one:
  "starts [x] = [] \<Longrightarrow> all_shaped L (tr @ [x]) \<longleftrightarrow> all_shaped L tr"
  using all_shaped_snoc all_shaped_shape shape_quiet by blast

lemma all_shaped_quiet [simp]:
  "starts delta = [] \<Longrightarrow> all_shaped L (tr @ delta) \<longleftrightarrow> all_shaped L tr"
proof (induction delta rule: rev_induct)
  case Nil
  then show ?case by simp
next
  case (snoc x xs)
  then have "starts [x] = []" "starts xs = []" by simp_all
  then show ?case
    using snoc.IH all_shaped_quiet_one[of x L "tr @ xs"] by simp
qed

lemma shape_start:
  "shape L i k tr \<Longrightarrow> k < CONCURRENCY \<Longrightarrow> i + k < L \<Longrightarrow> shape L i (Suc k) (tr @ [SectionStart (i + k)])"
  by (auto simp: shape_def)

lemma all_shaped_start:
  "all_shaped L tr \<Longrightarrow> shape L i k tr \<Longrightarrow> k < CONCURRENCY \<Longrightarrow> i + k < L \<Longrightarrow>
   all_shaped L (tr @ [SectionStart (i + k)])"
  using all_shaped_snoc shape_start by blast

subsection \<open>Completing a section\<close>

lemmas section_defs = section_complete_def section_catch_def section_finally_def do_effect_def Let_def

lemma section_complete_marks:
  assumes "section_complete e p ic st = (st', r)"
  shows "starts (trace st') = starts (trace st)"
    and "ends (trace st') = ends (trace st) @ [fst ic]"
    and "all_shaped L (trace st') = all_shaped L (trace st)"
  using assms
  by (auto simp: section_defs split: sum.splits option.splits if_splits)

lemma section_complete_res:
  assumes "section_complete e p ic st = (st', r)"
  shows "draftId (res st') = draftId (res st)"
    and "length (res_sections (res st')) \<le> Suc (length (res_sections (res st)))"
    and "length (res_sections (res st)) \<le> length (res_sections (res st'))"
    and "r = None \<Longrightarrow> length (res_sections (res st')) + length (res_errors (res st')) =
           Suc (length (res_sections (res st)) + length (res_errors (res st)))"
  using assms
  by (auto simp: section_defs split: sum.splits option.splits if_splits)

lemma progress_ok_simps [simp]:
  "progress_ok (UpdateProjectStatus s (Progress t c cur errs)) \<longleftrightarrow> c \<le> t"
  "progress_ok (UpdateProjectStatus s (Failure m))"
  "progress_ok (CreateDraft d)"
  "progress_ok (SectionStart i)"
  "progress_ok (GenerateContent i pr)"
  "progress_ok (UpdateDraftSection d ds)"
  "progress_ok (Emit ev)"
  "progress_ok (SectionEnd i)"
  "progress_ok (UpdateDraftReferences d rs)"
  by (simp_all add: progress_ok_def)

lemma unfinished_simps [simp]:
  "unfinished (UpdateProjectStatus s pl) \<longleftrightarrow> s = St_generating"
  "unfinished (CreateDraft d)"
  "unfinished (SectionStart i)"
  "unfinished (GenerateContent i pr)"
  "unfinished (UpdateDraftSection d ds)"
  "unfinished (Emit (Ev_progress pid t c cur))"
  "unfinished (Emit (Ev_section_complete pid sid title pv ok))"
  "unfinished (Emit (Ev_error pid st m rec))"
  "\<not> unfinished (Emit (Ev_complete pid did n errs))"
  "unfinished (SectionEnd i)"
  "unfinished (UpdateDraftReferences d rs)"
  by (simp_all add: unfinished_def)

lemma section_complete_progress:
  assumes "section_complete e p ic st = (st', r)"
    and "list_all progress_ok (trace st)"
    and "length (res_sections (res st)) < length (section_mapping p)"
  shows "list_all progress_ok (trace st')"
  using assms
  by (auto simp: section_defs split: sum.splits option.splits if_splits)

lemma section_complete_unfinished:
  assumes "section_complete e p ic st = (st', r)"
  shows "list_all unfinished (trace st') = list_all unfinished (trace st)"
  using assms
  by (auto simp: section_defs split: sum.splits option.splits if_splits)


subsection \<open>A batch\<close>

lemma all_shaped_start_quiet:
  "starts delta = [] \<Longrightarrow>
   all_shaped L (tr @ SectionStart j # delta) \<longleftrightarrow> all_shaped L (tr @ [SectionStart j])"
  using all_shaped_quiet[of delta L "tr @ [SectionStart j]"] by simp

lemma section_begin_res [simp]: "res (section_begin e p ic st) = res st"
  by (simp add: section_begin_def do_effect_def Let_def split: sum.splits gen_step.splits)

lemma section_begin_trace:
  "\<exists>delta. trace (section_begin e p ic st) = trace st @ SectionStart (fst ic) # delta \<and>
     starts delta = [] \<and> ends delta = [] \<and> list_all progress_ok delta \<and> list_all unfinished delta"
  by (simp add: section_begin_def do_effect_def Let_def split: sum.splits gen_step.splits)

lemma begin_fold:
  assumes "map fst ics = [i + k..<i + k + length ics]"
    and "all_shaped L (trace st)" and "shape L i k (trace st)"
    and "k + length ics \<le> CONCURRENCY" and "i + k + length ics \<le> L"
  shows "all_shaped L (trace (fold (section_begin e p) ics st)) \<and>
         shape L i (k + length ics) (trace (fold (section_begin e p) ics st)) \<and>
         res (fold (section_begin e p) ics st) = res st \<and>
         ends (trace (fold (section_begin e p) ics st)) = ends (trace st) \<and>
         list_all progress_ok (trace (fold (section_begin e p) ics st)) = list_all progress_ok (trace st) \<and>
         list_all unfinished (trace (fold (section_begin e p) ics st)) = list_all unfinished (trace st)"
  using assms
proof (induction ics arbitrary: st k)
  case Nil
  then show ?case by simp
next
  case (Cons ic ics)
  have u: "[i + k..<i + k + length (ic # ics)] = (i + k) # [i + Suc k..<i + Suc k + length ics]"
    by (subst upt_rec) simp
  from Cons.prems(1) have f: "fst ic = i + k"
    and m: "map fst ics = [i + Suc k..<i + Suc k + length ics]"
    unfolding u by simp_all
  obtain delta where d: "trace (section_begin e p ic st) = trace st @ SectionStart (fst ic) # delta"
    "starts delta = []" "ends delta = []" "list_all progress_ok delta" "list_all unfinished delta"
    using section_begin_trace by blast
  have k: "k < CONCURRENCY" "i + k < L" using Cons.prems(4,5) by simp_all
  have a: "all_shaped L (trace (section_begin e p ic st))"
    unfolding d(1) f all_shaped_start_quiet[OF d(2)]
    by (rule all_shaped_start[OF Cons.prems(2,3) k])
  have s: "shape L i (Suc k) (trace (section_begin e p ic st))"
    using shape_start[OF Cons.prems(3) k] d(2,3) unfolding d(1) f
    by (simp add: shape_def)
  have "all_shaped L (trace (fold (section_begin e p) ics (section_begin e p ic st))) \<and>
         shape L i (Suc k + length ics) (trace (fold (section_begin e p) ics (section_begin e p ic st))) \<and>
         res (fold (section_begin e p) ics (section_begin e p ic st)) = res (section_begin e p ic st) \<and>
         ends (trace (fold (section_begin e p) ics (section_begin e p ic st))) = ends (trace (section_begin e p ic st)) \<and>
         list_all progress_ok (trace (fold (section_begin e p) ics (section_begin e p ic st))) = list_all progress_ok (trace (section_begin e p ic st)) \<and>
         list_all unfinished (trace (fold (section_begin e p) ics (section_begin e p ic st))) = list_all unfinished (trace (section_begin e p ic st))"
    using Cons.prems(4,5) by (intro Cons.IH[OF m a s]) simp_all
  then show ?case
    using d by simp
qed

lemma complete_all_inv:
  assumes "complete_all e p ics st = (st', r)"
  shows "starts (trace st') = starts (trace st) \<and>
         all_shaped L (trace st') = all_shaped L (trace st) \<and>
         list_all unfinished (trace st') = list_all unfinished (trace st) \<and>
         draftId (res st') = draftId (res st) \<and>
         set (ends (trace st)) \<subseteq> set (ends (trace st')) \<and>
         (r = None \<longrightarrow>
            ends (trace st') = ends (trace st) @ map fst ics \<and>
            length (res_sections (res st')) + length (res_errors (res st')) =
              length (res_sections (res st)) + length (res_errors (res st)) + length ics) \<and>
         length (res_sections (res st')) + (case r of None \<Rightarrow> 0 | Some (x, rest) \<Rightarrow> length rest)
           \<le> length (res_sections (res st)) + length ics"
  using assms
proof (induction ics arbitrary: st)
  case Nil
  then show ?case by simp
next
  case (Cons ic ics)
  obtain st1 r1 where sc: "section_complete e p ic st = (st1, r1)"
    by (cases "section_complete e p ic st")
  note m = section_complete_marks(1,2)[OF sc] section_complete_marks(3)[OF sc, of L]
    section_complete_res[OF sc] section_complete_unfinished[OF sc]
  show ?case
  proof (cases r1)
    case None
    then have ca: "complete_all e p ics st1 = (st', r)"
      using Cons.prems sc by simp
    show ?thesis
      using Cons.IH[OF ca] m None by (auto split: option.splits)
  next
    case (Some x)
    then have "st' = st1" "r = Some (x, ics)"
      using Cons.prems sc by simp_all
    then show ?thesis
      using m by auto
  qed
qed

lemma complete_all_progress:
  assumes "complete_all e p ics st = (st', r)"
    and "list_all progress_ok (trace st)"
    and "length (res_sections (res st)) + length ics \<le> length (section_mapping p)"
  shows "list_all progress_ok (trace st')"
  using assms
proof (induction ics arbitrary: st)
  case Nil
  then show ?case by simp
next
  case (Cons ic ics)
  obtain st1 r1 where sc: "section_complete e p ic st = (st1, r1)"
    by (cases "section_complete e p ic st")
  have p1: "list_all progress_ok (trace st1)"
    using section_complete_progress[OF sc Cons.prems(2)] Cons.prems(3) by simp
  have l1: "length (res_sections (res st1)) + length ics \<le> length (section_mapping p)"
    using section_complete_res(2)[OF sc] Cons.prems(3) by simp
  show ?case
  proof (cases r1)
    case None
    then have ca: "complete_all e p ics st1 = (st', r)"
      using Cons.prems sc by simp
    show ?thesis by (rule Cons.IH[OF ca p1 l1])
  next
    case (Some x)
    then have "st' = st1" using Cons.prems sc by simp
    then show ?thesis using p1 by simp
  qed
qed

lemma drain_inv:
  "starts (trace (drain e p ics st)) = starts (trace st) \<and>
   all_shaped L (trace (drain e p ics st)) = all_shaped L (trace st) \<and>
   list_all unfinished (trace (drain e p ics st)) = list_all unfinished (trace st)"
proof (induction ics arbitrary: st)
  case Nil
  then show ?case by simp
next
  case (Cons ic ics)
  obtain st1 r1 where sc: "section_complete e p ic st = (st1, r1)"
    by (cases "section_complete e p ic st")
  show ?case
    using Cons.IH[of st1] section_complete_marks(1)[OF sc] section_complete_marks(3)[OF sc, of L]
      section_complete_unfinished[OF sc] sc
    by simp
qed

lemma drain_progress:
  assumes "list_all progress_ok (trace st)"
    and "length (res_sections (res st)) + length ics \<le> length (section_mapping p)"
  shows "list_all progress_ok (trace (drain e p ics st))"
  using assms
proof (induction ics arbitrary: st)
  case Nil
  then show ?case by simp
next
  case (Cons ic ics)
  obtain st1 r1 where sc: "section_complete e p ic st = (st1, r1)"
    by (cases "section_complete e p ic st")
  have p1: "list_all progress_ok (trace st1)"
    using section_complete_progress[OF sc Cons.prems(1)] Cons.prems(2) by simp
  have l1: "length (res_sections (res st1)) + length ics \<le> length (section_mapping p)"
    using section_complete_res(2)[OF sc] Cons.prems(2) by simp
  show ?case
    using Cons.IH[OF p1 l1] sc by simp
qed


lemma length_slice: "length (slice xs i (i + n)) = min n (length xs - i)"
  by (simp add: slice_def)

lemma shape_grow:
  "shape L i k tr \<Longrightarrow> starts tr' = starts tr \<Longrightarrow> set (ends tr) \<subseteq> set (ends tr') \<Longrightarrow>
   shape L i k tr'"
  by (auto simp: shape_def)

lemma promise_all_inv:
  assumes pa: "promise_all e p i (slice (section_mapping p) i (i + CONCURRENCY)) st = (st', r)"
    and i: "i < length (section_mapping p)"
    and a: "all_shaped (length (section_mapping p)) (trace st)"
    and s: "shape (length (section_mapping p)) i 0 (trace st)"
  shows "all_shaped (length (section_mapping p)) (trace st') \<and>
         list_all unfinished (trace st') = list_all unfinished (trace st) \<and>
         draftId (res st') = draftId (res st) \<and>
         (r = None \<longrightarrow>
            shape (length (section_mapping p)) i
              (min CONCURRENCY (length (section_mapping p) - i)) (trace st') \<and>
            {i..<i + min CONCURRENCY (length (section_mapping p) - i)} \<subseteq> set (ends (trace st')) \<and>
            length (res_sections (res st')) + length (res_errors (res st')) =
              length (res_sections (res st)) + length (res_errors (res st)) +
              min CONCURRENCY (length (section_mapping p) - i)) \<and>
         length (res_sections (res st')) + (case r of None \<Rightarrow> 0 | Some (x, rest) \<Rightarrow> length rest)
           \<le> length (res_sections (res st)) + min CONCURRENCY (length (section_mapping p) - i)"
proof -
  let ?L = "length (section_mapping p)"
  let ?batch = "slice (section_mapping p) i (i + CONCURRENCY)"
  let ?n = "min CONCURRENCY (?L - i)"
  let ?ics = "zip [i..<i + length ?batch] ?batch"
  let ?st1 = "fold (section_begin e p) ?ics st"
  have n: "length ?batch = ?n" by (rule length_slice)
  have len: "length ?ics = ?n" using n by simp
  have fs: "map fst ?ics = [i..<i + ?n]" using n by (simp add: map_fst_zip)
  have bf: "all_shaped ?L (trace ?st1) \<and> shape ?L i (0 + length ?ics) (trace ?st1) \<and>
         res ?st1 = res st \<and> ends (trace ?st1) = ends (trace st) \<and>
         list_all progress_ok (trace ?st1) = list_all progress_ok (trace st) \<and>
         list_all unfinished (trace ?st1) = list_all unfinished (trace st)"
    using i by (intro begin_fold) (simp_all add: fs len n a s)
  have ca: "complete_all e p (completion_order e ?ics) ?st1 = (st', r)"
    using pa by (simp add: promise_all_def Let_def)
  have lo: "length (completion_order e ?ics) = ?n"
    using len by (simp add: completion_order_def)
  have so: "set (map fst (completion_order e ?ics)) = {i..<i + ?n}"
  proof -
    have "set (map fst (completion_order e ?ics)) = set (map fst ?ics)"
      by (simp only: completion_order_def set_map set_sort)
    also have "\<dots> = {i..<i + ?n}"
      by (simp only: fs set_upt)
    finally show ?thesis .
  qed
  note c = complete_all_inv[OF ca, of ?L]
  have c1: "starts (trace st') = starts (trace ?st1)" using c by blast
  have c2: "all_shaped ?L (trace st') = all_shaped ?L (trace ?st1)" using c by blast
  have c3: "list_all unfinished (trace st') = list_all unfinished (trace ?st1)" using c by blast
  have c4: "draftId (res st') = draftId (res ?st1)" using c by blast
  have c5: "set (ends (trace ?st1)) \<subseteq> set (ends (trace st'))" using c by blast
  have c6: "r = None \<Longrightarrow> ends (trace st') = ends (trace ?st1) @ map fst (completion_order e ?ics)"
    using c by blast
  have c7: "r = None \<Longrightarrow> length (res_sections (res st')) + length (res_errors (res st')) =
              length (res_sections (res ?st1)) + length (res_errors (res ?st1)) +
              length (completion_order e ?ics)"
    using c by blast
  have c8: "length (res_sections (res st')) + (case r of None \<Rightarrow> 0 | Some (x, rest) \<Rightarrow> length rest)
           \<le> length (res_sections (res ?st1)) + length (completion_order e ?ics)"
    using c by blast
  have b2: "shape ?L i ?n (trace ?st1)" using bf len by simp
  have b3: "res ?st1 = res st" using bf by blast
  have b6: "list_all unfinished (trace ?st1) = list_all unfinished (trace st)" using bf by blast
  have sh: "shape ?L i ?n (trace st')"
    by (rule shape_grow[OF b2 c1 c5])
  have g1: "all_shaped ?L (trace st')" using c2 bf by blast
  have g2: "list_all unfinished (trace st') = list_all unfinished (trace st)" using c3 b6 by simp
  have g3: "draftId (res st') = draftId (res st)" using c4 b3 by simp
  have g4: "{i..<i + ?n} \<subseteq> set (ends (trace st'))" if "r = None"
    using c6[OF that] so by auto
  have g5: "length (res_sections (res st')) + length (res_errors (res st')) =
              length (res_sections (res st)) + length (res_errors (res st)) + ?n" if "r = None"
    using c7[OF that] lo b3 by simp
  have g6: "length (res_sections (res st')) + (case r of None \<Rightarrow> 0 | Some (x, rest) \<Rightarrow> length rest)
           \<le> length (res_sections (res st)) + ?n"
    using c8 lo b3 by simp
  show ?thesis
    using g1 g2 g3 g4 g5 g6 sh by blast
qed

lemma promise_all_progress:
  assumes pa: "promise_all e p i (slice (section_mapping p) i (i + CONCURRENCY)) st = (st', r)"
    and i: "i < length (section_mapping p)"
    and a: "all_shaped (length (section_mapping p)) (trace st)"
    and s: "shape (length (section_mapping p)) i 0 (trace st)"
    and ok: "list_all progress_ok (trace st)"
    and le: "length (res_sections (res st)) \<le> i"
  shows "list_all progress_ok (trace st')"
proof -
  let ?L = "length (section_mapping p)"
  let ?batch = "slice (section_mapping p) i (i + CONCURRENCY)"
  let ?n = "min CONCURRENCY (?L - i)"
  let ?ics = "zip [i..<i + length ?batch] ?batch"
  let ?st1 = "fold (section_begin e p) ?ics st"
  have n: "length ?batch = ?n" by (rule length_slice)
  have len: "length ?ics = ?n" using n by simp
  have fs: "map fst ?ics = [i..<i + ?n]" using n by (simp add: map_fst_zip)
  have bf: "all_shaped ?L (trace ?st1) \<and> shape ?L i (0 + length ?ics) (trace ?st1) \<and>
         res ?st1 = res st \<and> ends (trace ?st1) = ends (trace st) \<and>
         list_all progress_ok (trace ?st1) = list_all progress_ok (trace st) \<and>
         list_all unfinished (trace ?st1) = list_all unfinished (trace st)"
    using i by (intro begin_fold) (simp_all add: fs len n a s)
  have ca: "complete_all e p (completion_order e ?ics) ?st1 = (st', r)"
    using pa by (simp add: promise_all_def Let_def)
  have lo: "length (completion_order e ?ics) = ?n"
    using len by (simp add: completion_order_def)
  show ?thesis
    using bf ok le i lo by (intro complete_all_progress[OF ca]) auto
qed

lemma shape_next:
  assumes "shape L i CONCURRENCY tr" and "{i..<i + CONCURRENCY} \<subseteq> set (ends tr)"
  shows "shape L (i + CONCURRENCY) 0 tr"
  using assms by (auto simp: shape_def add.assoc) (metis atLeastLessThan_iff le0 not_less subsetD zero_order(3))


subsection \<open>The loop and the run\<close>

lemma batch_loop_inv:
  assumes "batch_loop e p i st = (st', r)"
    and "CONCURRENCY dvd i"
    and "all_shaped (length (section_mapping p)) (trace st)"
    and "i < length (section_mapping p) \<longrightarrow> shape (length (section_mapping p)) i 0 (trace st)"
    and "list_all progress_ok (trace st)"
    and "length (res_sections (res st)) + length (res_errors (res st)) = min i (length (section_mapping p))"
  shows "all_shaped (length (section_mapping p)) (trace st') \<and>
         list_all progress_ok (trace st') \<and>
         list_all unfinished (trace st') = list_all unfinished (trace st) \<and>
         draftId (res st') = draftId (res st) \<and>
         (r = None \<longrightarrow>
            length (res_sections (res st')) + length (res_errors (res st')) =
              length (section_mapping p)) \<and>
         length (res_sections (res st')) + (case r of None \<Rightarrow> 0 | Some (x, rest) \<Rightarrow> length rest)
           \<le> length (section_mapping p)"
  using assms
proof (induction e p i st arbitrary: st' r rule: batch_loop.induct)
  case (1 e p i st)
  let ?L = "length (section_mapping p)"
  show ?case
  proof (cases "i < ?L")
    case False
    then have "st' = st" "r = None"
      using "1.prems"(1) by (simp_all add: batch_loop.simps)
    then show ?thesis
      using "1.prems" False by simp
  next
    case True
    let ?n = "min CONCURRENCY (?L - i)"
    obtain st1 r1 where pa:
      "promise_all e p i (slice (section_mapping p) i (i + CONCURRENCY)) st = (st1, r1)"
      by (cases "promise_all e p i (slice (section_mapping p) i (i + CONCURRENCY)) st")
    have s0: "shape ?L i 0 (trace st)" using "1.prems"(4) True by simp
    have le: "length (res_sections (res st)) \<le> i" using "1.prems"(6) by simp
    note inv = promise_all_inv[OF pa True "1.prems"(3) s0]
    have ok1: "list_all progress_ok (trace st1)"
      by (rule promise_all_progress[OF pa True "1.prems"(3) s0 "1.prems"(5) le])
    have a1: "all_shaped ?L (trace st1)" using inv by blast
    have nr1: "list_all unfinished (trace st1) = list_all unfinished (trace st)" using inv by blast
    have d1: "draftId (res st1) = draftId (res st)" using inv by blast
    have b1: "length (res_sections (res st1)) + (case r1 of None \<Rightarrow> 0 | Some (x, rest) \<Rightarrow> length rest)
           \<le> length (res_sections (res st)) + ?n" using inv by blast
    show ?thesis
    proof (cases r1)
      case (Some xr)
      then have "st' = st1" "r = Some xr"
        using "1.prems"(1) pa True by (simp_all add: batch_loop.simps)
      then show ?thesis
        using a1 ok1 nr1 d1 b1 Some le True by (auto split: prod.splits)
    next
      case None
      then have bl: "batch_loop e p (i + CONCURRENCY) st1 = (st', r)"
        using "1.prems"(1) pa True by (simp add: batch_loop.simps)
      have sh1: "shape ?L i ?n (trace st1)" and en1: "{i..<i + ?n} \<subseteq> set (ends (trace st1))"
        and cnt1: "length (res_sections (res st1)) + length (res_errors (res st1)) =
              length (res_sections (res st)) + length (res_errors (res st)) + ?n"
        using inv None by blast+
      have dv: "CONCURRENCY dvd i + CONCURRENCY" using "1.prems"(2) by simp
      have nx: "i + CONCURRENCY < ?L \<longrightarrow> shape ?L (i + CONCURRENCY) 0 (trace st1)"
      proof
        assume lt: "i + CONCURRENCY < ?L"
        then have "?n = CONCURRENCY" by simp
        then show "shape ?L (i + CONCURRENCY) 0 (trace st1)"
          using shape_next[of ?L i "trace st1"] sh1 en1 by simp
      qed
      have cnt: "length (res_sections (res st1)) + length (res_errors (res st1)) =
                 min (i + CONCURRENCY) ?L"
        using cnt1 "1.prems"(6) True by arith
      have ih: "all_shaped ?L (trace st') \<and>
         list_all progress_ok (trace st') \<and>
         list_all unfinished (trace st') = list_all unfinished (trace st1) \<and>
         draftId (res st') = draftId (res st1) \<and>
         (r = None \<longrightarrow>
            length (res_sections (res st')) + length (res_errors (res st')) = ?L) \<and>
         length (res_sections (res st')) + (case r of None \<Rightarrow> 0 | Some (x, rest) \<Rightarrow> length rest)
           \<le> ?L"
        by (rule "1.IH"[OF True pa[symmetric] None bl dv a1 nx ok1 cnt])
      then show ?thesis
        using nr1 d1 by simp
    qed
  qed
qed

lemma section_complete_delta:
  assumes "section_complete e p ic st = (st', r)"
  shows "\<exists>delta. trace st' = trace st @ delta \<and> starts delta = [] \<and> list_all unfinished delta"
  using assms
  by (auto simp: section_defs split: sum.splits option.splits if_splits)

lemma drain_delta:
  "\<exists>delta. trace (drain e p ics st) = trace st @ delta \<and> starts delta = [] \<and>
     list_all unfinished delta"
proof (induction ics arbitrary: st)
  case Nil
  then show ?case by simp
next
  case (Cons ic ics)
  obtain st1 r1 where sc: "section_complete e p ic st = (st1, r1)"
    by (cases "section_complete e p ic st")
  obtain d1 where d1: "trace st1 = trace st @ d1" "starts d1 = []" "list_all unfinished d1"
    using section_complete_delta[OF sc] by blast
  obtain d2 where d2: "trace (drain e p ics st1) = trace st1 @ d2" "starts d2 = []"
    "list_all unfinished d2"
    using Cons.IH[of st1] by blast
  have "trace (drain e p (ic # ics) st) = trace st @ (d1 @ d2)"
    using sc d1(1) d2(1) by simp
  moreover have "starts (d1 @ d2) = []" "list_all unfinished (d1 @ d2)"
    using d1 d2 by simp_all
  ultimately show ?case by blast
qed

lemma run_catch_inv:
  assumes a: "all_shaped L (trace st)"
    and ok: "list_all progress_ok (trace st)"
    and le: "length (res_sections (res st)) + length inflight \<le> length (section_mapping p)"
    and un: "list_all unfinished (trace st)"
  shows "all_shaped L (effects (run_catch e p x inflight st)) \<and>
         list_all progress_ok (effects (run_catch e p x inflight st)) \<and>
         (\<exists>y. outcome (run_catch e p x inflight st) = Inl y) \<and>
         (list_all unfinished (effects (run_catch e p x inflight st)) \<or>
          (\<exists>m tail. effects (run_catch e p x inflight st) =
               trace st @ UpdateProjectStatus St_draft (Failure m) # tail \<and>
             starts tail = [] \<and> list_all unfinished tail))"
proof -
  have key: "all_shaped L (trace (drain e p inflight st1)) \<and>
             list_all progress_ok (trace (drain e p inflight st1)) \<and>
             (\<exists>tail. trace (drain e p inflight st1) = trace st @ pre @ tail \<and>
                starts tail = [] \<and> list_all unfinished tail)"
    if t: "trace st1 = trace st @ pre" and r: "res st1 = res st"
      and q: "starts pre = []" "list_all progress_ok pre" "list_all unfinished (drop 1 pre)"
    for st1 pre
  proof -
    have a1: "all_shaped L (trace st1)" using a t q(1) by simp
    have ok1: "list_all progress_ok (trace st1)" using ok t q(2) by simp
    have le1: "length (res_sections (res st1)) + length inflight \<le> length (section_mapping p)"
      using le r by simp
    obtain d where d: "trace (drain e p inflight st1) = trace st1 @ d" "starts d = []"
      "list_all unfinished d"
      using drain_delta by blast
    have "all_shaped L (trace (drain e p inflight st1))"
      using drain_inv[of e p inflight st1 L] a1 by simp
    moreover have "list_all progress_ok (trace (drain e p inflight st1))"
      by (rule drain_progress[OF ok1 le1])
    moreover have "trace (drain e p inflight st1) = trace st @ pre @ d"
      using d(1) t by simp
    ultimately show ?thesis using d(2,3) by blast
  qed
  show ?thesis
  proof (cases "store_error e Call_rollbackStatus")
    case (Some m)
    have "all_shaped L (trace (drain e p inflight st)) \<and>
             list_all progress_ok (trace (drain e p inflight st)) \<and>
             (\<exists>tail. trace (drain e p inflight st) = trace st @ [] @ tail \<and>
                starts tail = [] \<and> list_all unfinished tail)"
      by (rule key) simp_all
    then show ?thesis
      using Some un by (auto simp: run_catch_def)
  next
    case None
    let ?d = "UpdateProjectStatus St_draft (Failure (message e x))"
    let ?ev = "Emit (Ev_error (projectId p) None (message e x) False)"
    show ?thesis
    proof (cases "error_listener e None")
      case True
      have "all_shaped L (trace (drain e p inflight (do_effect ?ev (do_effect ?d st)))) \<and>
             list_all progress_ok (trace (drain e p inflight (do_effect ?ev (do_effect ?d st)))) \<and>
             (\<exists>tail. trace (drain e p inflight (do_effect ?ev (do_effect ?d st))) =
                  trace st @ [?d, ?ev] @ tail \<and>
                starts tail = [] \<and> list_all unfinished tail)"
        by (rule key) (simp_all add: do_effect_def)
      then obtain tail where
        "all_shaped L (trace (drain e p inflight (do_effect ?ev (do_effect ?d st))))"
        "list_all progress_ok (trace (drain e p inflight (do_effect ?ev (do_effect ?d st))))"
        "trace (drain e p inflight (do_effect ?ev (do_effect ?d st))) = trace st @ ?d # (?ev # tail)"
        "starts (?ev # tail) = []" "list_all unfinished (?ev # tail)"
        by auto
      then show ?thesis
        using None True by (simp add: run_catch_def Let_def)
    next
      case False
      have "all_shaped L (trace (drain e p inflight (do_effect ?d st))) \<and>
             list_all progress_ok (trace (drain e p inflight (do_effect ?d st))) \<and>
             (\<exists>tail. trace (drain e p inflight (do_effect ?d st)) = trace st @ [?d] @ tail \<and>
                starts tail = [] \<and> list_all unfinished tail)"
        by (rule key) (simp_all add: do_effect_def)
      then obtain tail where
        "all_shaped L (trace (drain e p inflight (do_effect ?d st)))"
        "list_all progress_ok (trace (drain e p inflight (do_effect ?d st)))"
        "trace (drain e p inflight (do_effect ?d st)) = trace st @ ?d # tail"
        "starts tail = []" "list_all unfinished tail"
        by auto
      then show ?thesis
        using None False by (simp add: run_catch_def Let_def)
    qed
  qed
qed


lemma all_shaped_Nil: "all_shaped L []"
  by (auto simp: all_shaped_def shape_def intro!: exI[of _ 0])

lemma all_shaped_no_sections: "starts delta = [] \<Longrightarrow> all_shaped L delta"
  using all_shaped_quiet[of delta L "[]"] all_shaped_Nil by simp

lemma run_structure:
  fixes e p
  defines "L \<equiv> length (section_mapping p)"
  defines "run \<equiv> generateProjectContent e p"
  shows "all_shaped L (effects run) \<and> list_all progress_ok (effects run) \<and>
     ((\<exists>rs tr. outcome run = Inr rs \<and>
         effects run = tr @
           [UpdateProjectStatus St_ready (Progress L L None (res_errors rs)),
            Emit (Ev_complete (projectId p) (new_draft_id e) (length (res_sections rs))
                   (res_errors rs))] \<and>
         list_all unfinished tr \<and>
         length (res_sections rs) + length (res_errors rs) = L \<and>
         draftId rs = new_draft_id e)
      \<or> (\<exists>y. outcome run = Inl y \<and> list_all unfinished (effects run))
      \<or> (\<exists>y tr m tail. outcome run = Inl y \<and>
            effects run = tr @ UpdateProjectStatus St_draft (Failure m) # tail \<and>
            list_all unfinished tr \<and> starts tail = [] \<and> list_all unfinished tail))"
proof (cases "store_error e Call_initStatus")
  case (Some m)
  then show ?thesis
    by (simp add: run_def generateProjectContent_def all_shaped_Nil)
next
  case init: None
  let ?t1 = "[UpdateProjectStatus St_generating (Progress L 0 None [])]"
  show ?thesis
  proof (cases "store_error e Call_createDraft")
    case (Some m)
    then show ?thesis
      using init
      by (simp add: run_def generateProjectContent_def L_def all_shaped_no_sections)
  next
    case created: None
    let ?st0 = "\<lparr>trace = ?t1 @ [CreateDraft (new_draft_id e)],
                 res = \<lparr>draftId = new_draft_id e, res_sections = [],
                        res_errors = [], res_warnings = []\<rparr>\<rparr>"
    obtain st r where bl: "batch_loop e p 0 ?st0 = (st, r)"
      by (cases "batch_loop e p 0 ?st0")
    have inv: "all_shaped L (trace st) \<and>
         list_all progress_ok (trace st) \<and>
         list_all unfinished (trace st) = list_all unfinished (trace ?st0) \<and>
         draftId (res st) = draftId (res ?st0) \<and>
         (r = None \<longrightarrow> length (res_sections (res st)) + length (res_errors (res st)) = L) \<and>
         length (res_sections (res st)) + (case r of None \<Rightarrow> 0 | Some (x, rest) \<Rightarrow> length rest)
           \<le> L"
      unfolding L_def
      by (rule batch_loop_inv[OF bl[unfolded L_def]])
         (simp_all add: all_shaped_no_sections shape_def)
    then have a: "all_shaped L (trace st)" and ok: "list_all progress_ok (trace st)"
      and un: "list_all unfinished (trace st)" and dr: "draftId (res st) = new_draft_id e"
      by simp_all
    have run_eq: "run =
        (case r of
           Some (x, inflight) \<Rightarrow> run_catch e p x inflight st
         | None \<Rightarrow>
            (case store_error e Call_references of
               Some m \<Rightarrow> run_catch e p (Error m) [] st
             | None \<Rightarrow>
                 (let st1 = do_effect (UpdateDraftReferences (draftId (res st))
                              (collectReferences (documents p))) st
                  in case store_error e Call_readyStatus of
                       Some m \<Rightarrow> run_catch e p (Error m) [] st1
                     | None \<Rightarrow>
                         (let st2 = do_effect (UpdateProjectStatus St_ready
                                      (Progress (length (section_mapping p))
                                         (length (section_mapping p)) None
                                         (res_errors (res st1)))) st1;
                              st3 = do_effect (Emit (Ev_complete (projectId p)
                                      (draftId (res st2))
                                      (length (res_sections (res st2)))
                                      (res_errors (res st2)))) st2
                          in \<lparr>effects = trace st3, outcome = Inr (res st3)\<rparr>))))"
      using init created bl
      by (simp add: run_def generateProjectContent_def L_def split: option.splits prod.splits)
    have catch: "all_shaped L (effects (run_catch e p x inflight st')) \<and>
        list_all progress_ok (effects (run_catch e p x inflight st')) \<and>
        ((\<exists>y. outcome (run_catch e p x inflight st') = Inl y \<and>
              list_all unfinished (effects (run_catch e p x inflight st')))
         \<or> (\<exists>y tr m tail. outcome (run_catch e p x inflight st') = Inl y \<and>
            effects (run_catch e p x inflight st') =
              tr @ UpdateProjectStatus St_draft (Failure m) # tail \<and>
            list_all unfinished tr \<and> starts tail = [] \<and> list_all unfinished tail))"
      if "all_shaped L (trace st')" "list_all progress_ok (trace st')"
        "length (res_sections (res st')) + length inflight \<le> length (section_mapping p)"
        "list_all unfinished (trace st')"
      for x inflight st'
      using run_catch_inv[OF that, of e x] that(4) by blast
    show ?thesis
    proof (cases r)
      case (Some xi)
      obtain x inflight where xi: "xi = (x, inflight)" by (cases xi)
      have le: "length (res_sections (res st)) + length inflight \<le> length (section_mapping p)"
        using inv Some xi by (simp add: L_def)
      show ?thesis
        using catch[OF a ok le un, of x] run_eq Some xi by simp
    next
      case None
      have cnt: "length (res_sections (res st)) + length (res_errors (res st)) = L"
        using inv None by simp
      then have le: "length (res_sections (res st)) + length ([] :: (nat \<times> section_config) list)
          \<le> length (section_mapping p)"
        by (simp add: L_def)
      show ?thesis
      proof (cases "store_error e Call_references")
        case (Some m)
        show ?thesis
          using catch[OF a ok le un, of "Error m"] run_eq None Some by simp
      next
        case refs: None
        let ?st1 = "do_effect (UpdateDraftReferences (draftId (res st))
                              (collectReferences (documents p))) st"
        have a1: "all_shaped L (trace ?st1)" and ok1: "list_all progress_ok (trace ?st1)"
          and un1: "list_all unfinished (trace ?st1)" and r1: "res ?st1 = res st"
          using a ok un by (simp_all add: do_effect_def)
        have le1: "length (res_sections (res ?st1)) + length ([] :: (nat \<times> section_config) list)
          \<le> length (section_mapping p)"
          using le r1 by simp
        show ?thesis
        proof (cases "store_error e Call_readyStatus")
          case (Some m)
          show ?thesis
            using catch[OF a1 ok1 le1 un1, of "Error m"] run_eq None refs Some
            by (simp add: Let_def)
        next
          case ready: None
          have eff: "effects run = trace ?st1 @
             [UpdateProjectStatus St_ready (Progress L L None (res_errors (res st))),
              Emit (Ev_complete (projectId p) (new_draft_id e) (length (res_sections (res st)))
                     (res_errors (res st)))]"
            and out: "outcome run = Inr (res st)"
            using run_eq None refs ready dr by (simp_all add: Let_def do_effect_def L_def)
          have "all_shaped L (effects run)" "list_all progress_ok (effects run)"
            unfolding eff using a1 ok1 by simp_all
          then show ?thesis
            using eff out un1 cnt dr by blast
        qed
      qed
    qed
  qed
qed

lemma unique_split:
  assumes "list_all Q tr" and "list_all Q tail" and "\<not> Q y"
    and "xs @ y # ys = tr @ x # tail"
  shows "xs = tr \<and> y = x \<and> ys = tail"
  using assms
proof (induction tr arbitrary: xs)
  case Nil
  then show ?case
    by (cases xs) (auto simp: list_all_iff)
next
  case (Cons t tr)
  then show ?case
    by (cases xs) (auto simp: list_all_iff)
qed


subsection \<open>The write of the references\<close>

lemma no_refs_simps [simp]:
  "no_refs (UpdateProjectStatus s pl)"
  "no_refs (CreateDraft d)"
  "no_refs (SectionStart i)"
  "no_refs (GenerateContent i pr)"
  "no_refs (UpdateDraftSection d ds)"
  "no_refs (Emit ev)"
  "no_refs (SectionEnd i)"
  "\<not> no_refs (UpdateDraftReferences d rs)"
  by (simp_all add: no_refs_def)

lemma closing_simps [simp]:
  "closing (UpdateProjectStatus s pl)"
  "\<not> closing (CreateDraft d)"
  "\<not> closing (SectionStart i)"
  "\<not> closing (GenerateContent i pr)"
  "\<not> closing (UpdateDraftSection d ds)"
  "closing (Emit ev)"
  "\<not> closing (SectionEnd i)"
  "\<not> closing (UpdateDraftReferences d rs)"
  by (simp_all add: closing_def)

lemma section_complete_no_refs:
  assumes "section_complete e p ic st = (st', r)"
  shows "list_all no_refs (trace st') = list_all no_refs (trace st)"
  using assms
  by (auto simp: section_defs split: sum.splits option.splits if_splits)

lemma section_begin_no_refs:
  "list_all no_refs (trace (section_begin e p ic st)) = list_all no_refs (trace st)"
  by (simp add: section_begin_def do_effect_def Let_def split: sum.splits gen_step.splits)

lemma begin_fold_no_refs:
  "list_all no_refs (trace (fold (section_begin e p) ics st)) = list_all no_refs (trace st)"
  by (induction ics arbitrary: st) (simp_all add: section_begin_no_refs)

lemma complete_all_no_refs:
  assumes "complete_all e p ics st = (st', r)"
  shows "list_all no_refs (trace st') = list_all no_refs (trace st)"
  using assms
proof (induction ics arbitrary: st)
  case Nil
  then show ?case by simp
next
  case (Cons ic ics)
  obtain st1 r1 where sc: "section_complete e p ic st = (st1, r1)"
    by (cases "section_complete e p ic st")
  show ?case
  proof (cases r1)
    case None
    then have "complete_all e p ics st1 = (st', r)"
      using Cons.prems sc by simp
    then show ?thesis
      using Cons.IH section_complete_no_refs[OF sc] by simp
  next
    case (Some x)
    then have "st' = st1" using Cons.prems sc by simp
    then show ?thesis using section_complete_no_refs[OF sc] by simp
  qed
qed

lemma drain_no_refs:
  "list_all no_refs (trace (drain e p ics st)) = list_all no_refs (trace st)"
proof (induction ics arbitrary: st)
  case Nil
  then show ?case by simp
next
  case (Cons ic ics)
  obtain st1 r1 where sc: "section_complete e p ic st = (st1, r1)"
    by (cases "section_complete e p ic st")
  show ?case
    using Cons.IH[of st1] section_complete_no_refs[OF sc] sc by simp
qed

lemma promise_all_no_refs:
  assumes "promise_all e p i batch st = (st', r)"
  shows "list_all no_refs (trace st') = list_all no_refs (trace st)"
  using assms complete_all_no_refs begin_fold_no_refs
  by (simp add: promise_all_def Let_def)

text \<open>When the loop ends without an exception, no references have been written, every
  section of the mapping has started, in order, and every one has ended.\<close>

lemma batch_loop_done:
  assumes "batch_loop e p i st = (st', r)"
    and "CONCURRENCY dvd i"
    and "all_shaped (length (section_mapping p)) (trace st)"
    and "i < length (section_mapping p) \<longrightarrow> shape (length (section_mapping p)) i 0 (trace st)"
    and "length (section_mapping p) \<le> i \<longrightarrow>
           starts (trace st) = [0..<length (section_mapping p)] \<and>
           {0..<length (section_mapping p)} \<subseteq> set (ends (trace st))"
  shows "list_all no_refs (trace st') = list_all no_refs (trace st) \<and>
         (r = None \<longrightarrow>
            starts (trace st') = [0..<length (section_mapping p)] \<and>
            {0..<length (section_mapping p)} \<subseteq> set (ends (trace st')))"
  using assms
proof (induction e p i st arbitrary: st' r rule: batch_loop.induct)
  case (1 e p i st)
  let ?L = "length (section_mapping p)"
  show ?case
  proof (cases "i < ?L")
    case False
    then have "st' = st" "r = None"
      using "1.prems"(1) by (simp_all add: batch_loop.simps)
    then show ?thesis
      using "1.prems"(5) False by simp
  next
    case True
    let ?n = "min CONCURRENCY (?L - i)"
    obtain st1 r1 where pa:
      "promise_all e p i (slice (section_mapping p) i (i + CONCURRENCY)) st = (st1, r1)"
      by (cases "promise_all e p i (slice (section_mapping p) i (i + CONCURRENCY)) st")
    have s0: "shape ?L i 0 (trace st)" using "1.prems"(4) True by simp
    note inv = promise_all_inv[OF pa True "1.prems"(3) s0]
    have nr1: "list_all no_refs (trace st1) = list_all no_refs (trace st)"
      by (rule promise_all_no_refs[OF pa])
    have a1: "all_shaped ?L (trace st1)" using inv by blast
    show ?thesis
    proof (cases r1)
      case (Some xr)
      then have "st' = st1" "r = Some xr"
        using "1.prems"(1) pa True by (simp_all add: batch_loop.simps)
      then show ?thesis
        using nr1 by simp
    next
      case None
      then have bl: "batch_loop e p (i + CONCURRENCY) st1 = (st', r)"
        using "1.prems"(1) pa True by (simp add: batch_loop.simps)
      have sh1: "shape ?L i ?n (trace st1)" and en1: "{i..<i + ?n} \<subseteq> set (ends (trace st1))"
        using inv None by blast+
      have dv: "CONCURRENCY dvd i + CONCURRENCY" using "1.prems"(2) by simp
      have nx: "i + CONCURRENCY < ?L \<longrightarrow> shape ?L (i + CONCURRENCY) 0 (trace st1)"
      proof
        assume lt: "i + CONCURRENCY < ?L"
        then have "?n = CONCURRENCY" by simp
        then show "shape ?L (i + CONCURRENCY) 0 (trace st1)"
          using shape_next[of ?L i "trace st1"] sh1 en1 by simp
      qed
      have fin: "?L \<le> i + CONCURRENCY \<longrightarrow>
           starts (trace st1) = [0..<?L] \<and> {0..<?L} \<subseteq> set (ends (trace st1))"
      proof
        assume ge: "?L \<le> i + CONCURRENCY"
        then have n: "i + ?n = ?L" using True by simp
        have "starts (trace st1) = [0..<i + ?n]" and lo: "{0..<i} \<subseteq> set (ends (trace st1))"
          using sh1 by (simp_all add: shape_def)
        moreover have "{0..<?L} \<subseteq> set (ends (trace st1))"
        proof
          fix x
          assume "x \<in> {0..<?L}"
          then have "x \<in> {0..<i} \<or> x \<in> {i..<i + ?n}" using n by auto
          then show "x \<in> set (ends (trace st1))" using lo en1 by blast
        qed
        ultimately show "starts (trace st1) = [0..<?L] \<and> {0..<?L} \<subseteq> set (ends (trace st1))"
          using n by simp
      qed
      have "list_all no_refs (trace st') = list_all no_refs (trace st1) \<and>
         (r = None \<longrightarrow> starts (trace st') = [0..<?L] \<and> {0..<?L} \<subseteq> set (ends (trace st')))"
        by (rule "1.IH"[OF True pa[symmetric] None bl dv a1 nx fin])
      then show ?thesis
        using nr1 by simp
    qed
  qed
qed

lemma section_complete_mono:
  assumes "section_complete e p ic st = (st', r)"
  shows "set (trace st) \<subseteq> set (trace st')"
  using section_complete_delta[OF assms] by auto

lemma begin_fold_mono:
  "set (trace st) \<subseteq> set (trace (fold (section_begin e p) ics st))"
proof (induction ics arbitrary: st)
  case Nil
  then show ?case by simp
next
  case (Cons ic ics)
  have "set (trace st) \<subseteq> set (trace (section_begin e p ic st))"
    using section_begin_trace[of e p ic st] by auto
  then show ?case
    using Cons.IH[of "section_begin e p ic st"] by auto
qed

lemma complete_all_mono:
  assumes "complete_all e p ics st = (st', r)"
  shows "set (trace st) \<subseteq> set (trace st')"
  using assms
proof (induction ics arbitrary: st)
  case Nil
  then show ?case by simp
next
  case (Cons ic ics)
  obtain st1 r1 where sc: "section_complete e p ic st = (st1, r1)"
    by (cases "section_complete e p ic st")
  show ?case
  proof (cases r1)
    case None
    then have "complete_all e p ics st1 = (st', r)"
      using Cons.prems sc by simp
    then show ?thesis
      using Cons.IH section_complete_mono[OF sc] by blast
  next
    case (Some x)
    then have "st' = st1" using Cons.prems sc by simp
    then show ?thesis using section_complete_mono[OF sc] by simp
  qed
qed

lemma promise_all_mono:
  assumes "promise_all e p i batch st = (st', r)"
  shows "set (trace st) \<subseteq> set (trace st')"
proof -
  let ?ics = "zip [i..<i + length batch] batch"
  have "complete_all e p (completion_order e ?ics) (fold (section_begin e p) ?ics st) = (st', r)"
    using assms by (simp add: promise_all_def Let_def)
  from complete_all_mono[OF this] begin_fold_mono[of st e p ?ics]
  show ?thesis by blast
qed

lemma batch_loop_mono:
  assumes "batch_loop e p i st = (st', r)"
  shows "set (trace st) \<subseteq> set (trace st')"
  using assms
proof (induction e p i st arbitrary: st' r rule: batch_loop.induct)
  case (1 e p i st)
  show ?case
  proof (cases "i < length (section_mapping p)")
    case False
    then show ?thesis using "1.prems" by (simp add: batch_loop.simps)
  next
    case True
    obtain st1 r1 where pa:
      "promise_all e p i (slice (section_mapping p) i (i + CONCURRENCY)) st = (st1, r1)"
      by (cases "promise_all e p i (slice (section_mapping p) i (i + CONCURRENCY)) st")
    show ?thesis
    proof (cases r1)
      case (Some xr)
      then have "st' = st1"
        using "1.prems" pa True by (simp add: batch_loop.simps)
      then show ?thesis using promise_all_mono[OF pa] by simp
    next
      case None
      then have bl: "batch_loop e p (i + CONCURRENCY) st1 = (st', r)"
        using "1.prems" pa True by (simp add: batch_loop.simps)
      show ?thesis
        using "1.IH"[OF True pa[symmetric] None bl] promise_all_mono[OF pa] by blast
    qed
  qed
qed

lemma run_catch_outcome: "\<exists>y. outcome (run_catch e p x inflight st) = Inl y"
  by (simp add: run_catch_def Let_def split: option.splits)

lemma run_catch_no_refs:
  "list_all no_refs (effects (run_catch e p x inflight st)) = list_all no_refs (trace st)"
  by (simp add: run_catch_def Let_def drain_no_refs do_effect_def split: option.splits)

lemma run_catch_closing:
  "\<exists>ys. effects (run_catch e p x [] st) = trace st @ ys \<and> list_all closing ys"
  by (simp add: run_catch_def Let_def do_effect_def split: option.splits)

lemma run_references:
  fixes e p
  defines "L \<equiv> length (section_mapping p)"
  defines "run \<equiv> generateProjectContent e p"
  shows "(list_all no_refs (effects run) \<and> (\<exists>y. outcome run = Inl y)) \<or>
     (\<exists>xs ys. effects run =
          xs @ UpdateDraftReferences (new_draft_id e) (collectReferences (documents p)) # ys \<and>
        CreateDraft (new_draft_id e) \<in> set xs \<and>
        list_all no_refs xs \<and> starts xs = [0..<L] \<and> {0..<L} \<subseteq> set (ends xs) \<and>
        list_all closing ys)"
proof (cases "store_error e Call_initStatus")
  case (Some m)
  then show ?thesis
    by (simp add: run_def generateProjectContent_def)
next
  case init: None
  show ?thesis
  proof (cases "store_error e Call_createDraft")
    case (Some m)
    then show ?thesis
      using init by (simp add: run_def generateProjectContent_def)
  next
    case created: None
    let ?st0 = "\<lparr>trace = [UpdateProjectStatus St_generating (Progress L 0 None [])] @
                         [CreateDraft (new_draft_id e)],
                 res = \<lparr>draftId = new_draft_id e, res_sections = [],
                        res_errors = [], res_warnings = []\<rparr>\<rparr>"
    obtain st r where bl: "batch_loop e p 0 ?st0 = (st, r)"
      by (cases "batch_loop e p 0 ?st0")
    have dr0: "draftId (res st) = new_draft_id e"
    proof -
      have "draftId (res st) = draftId (res ?st0)"
        using batch_loop_inv[OF bl[unfolded L_def]]
        by (simp add: all_shaped_no_sections shape_def)
      then show ?thesis by simp
    qed
    have fin: "list_all no_refs (trace st) = list_all no_refs (trace ?st0) \<and>
         (r = None \<longrightarrow> starts (trace st) = [0..<L] \<and> {0..<L} \<subseteq> set (ends (trace st)))"
      unfolding L_def
      by (rule batch_loop_done[OF bl[unfolded L_def]])
         (simp_all add: all_shaped_no_sections shape_def)
    then have nr: "list_all no_refs (trace st)" by simp
    have cd: "CreateDraft (new_draft_id e) \<in> set (trace st)"
      using batch_loop_mono[OF bl] by auto
    have run_eq: "run =
        (case r of
           Some (x, inflight) \<Rightarrow> run_catch e p x inflight st
         | None \<Rightarrow>
            (case store_error e Call_references of
               Some m \<Rightarrow> run_catch e p (Error m) [] st
             | None \<Rightarrow>
                 (let st1 = do_effect (UpdateDraftReferences (draftId (res st))
                              (collectReferences (documents p))) st
                  in case store_error e Call_readyStatus of
                       Some m \<Rightarrow> run_catch e p (Error m) [] st1
                     | None \<Rightarrow>
                         (let st2 = do_effect (UpdateProjectStatus St_ready
                                      (Progress (length (section_mapping p))
                                         (length (section_mapping p)) None
                                         (res_errors (res st1)))) st1;
                              st3 = do_effect (Emit (Ev_complete (projectId p)
                                      (draftId (res st2))
                                      (length (res_sections (res st2)))
                                      (res_errors (res st2)))) st2
                          in \<lparr>effects = trace st3, outcome = Inr (res st3)\<rparr>))))"
      using init created bl
      by (simp add: run_def generateProjectContent_def L_def split: option.splits prod.splits)
    show ?thesis
    proof (cases r)
      case (Some xi)
      obtain x inflight where xi: "xi = (x, inflight)" by (cases xi)
      show ?thesis
        using run_eq Some xi nr by (simp add: run_catch_no_refs run_catch_outcome)
    next
      case None
      have all: "starts (trace st) = [0..<L]" "{0..<L} \<subseteq> set (ends (trace st))"
        using fin None by simp_all
      show ?thesis
      proof (cases "store_error e Call_references")
        case (Some m)
        show ?thesis
          using run_eq None Some nr by (simp add: run_catch_no_refs run_catch_outcome)
      next
        case refs: None
        let ?w = "UpdateDraftReferences (new_draft_id e) (collectReferences (documents p))"
        let ?st1 = "do_effect ?w st"
        have t1: "trace ?st1 = trace st @ [?w]" by (simp add: do_effect_def)
        show ?thesis
        proof (cases "store_error e Call_readyStatus")
          case (Some m)
          obtain ys where ys: "effects (run_catch e p (Error m) [] ?st1) = trace ?st1 @ ys"
            "list_all closing ys"
            using run_catch_closing by blast
          have "effects run = trace st @ ?w # ys"
            using run_eq None refs Some dr0 ys(1) t1 by (simp add: Let_def)
          then show ?thesis
            using nr all cd ys(2) by blast
        next
          case ready: None
          have "effects run = trace st @ ?w #
             [UpdateProjectStatus St_ready (Progress L L None (res_errors (res st))),
              Emit (Ev_complete (projectId p) (new_draft_id e) (length (res_sections (res st)))
                     (res_errors (res st)))]"
            using run_eq None refs ready dr0 by (simp add: Let_def do_effect_def L_def)
          moreover have "list_all closing
             [UpdateProjectStatus St_ready (Progress L L None (res_errors (res st))),
              Emit (Ev_complete (projectId p) (new_draft_id e) (length (res_sections (res st)))
                     (res_errors (res st)))]"
            by simp
          ultimately show ?thesis
            using nr all cd by blast
        qed
      qed
    qed
  qed
qed


lemma closing_quiet:
  "list_all closing ys \<Longrightarrow> starts ys = [] \<and> (\<forall>d ds. UpdateDraftSection d ds \<notin> set ys)"
  by (induction ys) (auto simp: closing_def starts_def split: effect.splits)


subsection \<open>The example runs\<close>

lemmas run_defs = generateProjectContent_def run_catch_def promise_all_def completion_order_def
  section_complete_def section_catch_def section_finally_def section_begin_def race_def
  generationPromise_def do_effect_def placeholder_def message_def slice_def CONCURRENCY_def
  wordCount_def preview_def split_ws_length_def is_space_def string_of_nat.simps digit_char_def
  SECTION_TIMEOUT_MS_def generateSingleDocSection_def extractSourceContent_def doc_fullText_def or_else_def or_empty_def
  truncateForContext_def trim_def Let_def batch_loop.simps collectReferences_def

lemmas example_defs = watched_env_def proj1_def proj2_def proj4_def sec_def paper_def
  paper_text_def stub_ai_def

lemma run_watched_one:
  "generateProjectContent watched_env proj1 =
   \<lparr>effects =
     [UpdateProjectStatus St_generating (Progress 1 0 None []),
     CreateDraft ''d1'', SectionStart 0,
     Emit (Ev_progress ''p1'' 1 0 ''Intro''),
     GenerateContent 0 ''Rewrite: Intro'',
     Emit (Ev_error ''p1'' (Some ''Intro'') ''quota exceeded'' True),
     UpdateDraftSection ''d1''
     \<lparr>ds_templateSectionId = ''s1'', ds_templateSectionTitle = ''Intro'',
     ds_content =
     Some
     ''[Generation failed: quota exceeded. Please edit manually.]'',
     ds_sourceRefs = [], ds_warnings = [''quota exceeded'']\<rparr>,
     UpdateProjectStatus St_generating
     (Progress 1 0 (Some ''Processing... (0/1)'')
     [(''Intro'', ''quota exceeded'')]),
     SectionEnd 0, UpdateDraftReferences ''d1'' [],
     UpdateProjectStatus St_ready
     (Progress 1 1 None [(''Intro'', ''quota exceeded'')]),
     Emit (Ev_complete ''p1'' ''d1'' 0 [(''Intro'', ''quota exceeded'')])],
     outcome =
     Inr \<lparr>draftId = ''d1'', res_sections = [],
     res_errors = [(''Intro'', ''quota exceeded'')],
     res_warnings = []\<rparr>\<rparr>"
  by (simp add: run_defs example_defs cong: prod.case_cong_weak let_weak_cong)

lemma run_watched_four:
  "generateProjectContent watched_env proj4 =
   \<lparr>effects =
     [UpdateProjectStatus St_generating (Progress 4 0 None []),
     CreateDraft ''d1'', SectionStart 0,
     Emit (Ev_progress ''p1'' 4 0 ''Intro''),
     GenerateContent 0 ''Rewrite: Intro'', SectionStart 1,
     Emit (Ev_progress ''p1'' 4 0 ''Methods''),
     GenerateContent 1 ''Rewrite: Methods'', SectionStart 2,
     Emit (Ev_progress ''p1'' 4 0 ''Results''),
     GenerateContent 2 ''Rewrite: Results'',
     Emit (Ev_error ''p1'' (Some ''Intro'') ''quota exceeded'' True),
     UpdateDraftSection ''d1''
     \<lparr>ds_templateSectionId = ''s1'', ds_templateSectionTitle = ''Intro'',
     ds_content =
     Some
     ''[Generation failed: quota exceeded. Please edit manually.]'',
     ds_sourceRefs = [], ds_warnings = [''quota exceeded'']\<rparr>,
     UpdateProjectStatus St_generating
     (Progress 4 0 (Some ''Processing... (0/4)'')
     [(''Intro'', ''quota exceeded'')]),
     SectionEnd 0,
     UpdateDraftSection ''d1''
     \<lparr>ds_templateSectionId = ''s2'', ds_templateSectionTitle = ''Methods'',
     ds_content = Some ''Generated text.'',
     ds_sourceRefs = [\<lparr>documentId = ''doc-1'', ref_sections = None\<rparr>],
     ds_warnings = []\<rparr>,
     Emit
     (Ev_section_complete ''p1'' ''s2'' ''Methods'' ''Generated text.''
     (Some True)),
     UpdateProjectStatus St_generating
     (Progress 4 1 (Some ''Processing... (1/4)'')
     [(''Intro'', ''quota exceeded'')]),
     SectionEnd 1,
     UpdateDraftSection ''d1''
     \<lparr>ds_templateSectionId = ''s3'', ds_templateSectionTitle = ''Results'',
     ds_content = Some ''Generated text.'',
     ds_sourceRefs = [\<lparr>documentId = ''doc-1'', ref_sections = None\<rparr>],
     ds_warnings = []\<rparr>,
     Emit
     (Ev_section_complete ''p1'' ''s3'' ''Results'' ''Generated text.''
     (Some True)),
     UpdateProjectStatus St_generating
     (Progress 4 2 (Some ''Processing... (2/4)'')
     [(''Intro'', ''quota exceeded'')]),
     SectionEnd 2, SectionStart 3, Emit (Ev_progress ''p1'' 4 2 ''End''),
     GenerateContent 3 ''Rewrite: End'',
     UpdateDraftSection ''d1''
     \<lparr>ds_templateSectionId = ''s4'', ds_templateSectionTitle = ''End'',
     ds_content = Some ''Generated text.'',
     ds_sourceRefs = [\<lparr>documentId = ''doc-1'', ref_sections = None\<rparr>],
     ds_warnings = []\<rparr>,
     Emit
     (Ev_section_complete ''p1'' ''s4'' ''End'' ''Generated text.''
     (Some True)),
     UpdateProjectStatus St_generating
     (Progress 4 3 (Some ''Processing... (3/4)'')
     [(''Intro'', ''quota exceeded'')]),
     SectionEnd 3, UpdateDraftReferences ''d1'' [],
     UpdateProjectStatus St_ready
     (Progress 4 4 None [(''Intro'', ''quota exceeded'')]),
     Emit (Ev_complete ''p1'' ''d1'' 3 [(''Intro'', ''quota exceeded'')])],
     outcome =
     Inr \<lparr>draftId = ''d1'',
     res_sections =
     [\<lparr>ss_sectionId = ''s2'', ss_sectionTitle = ''Methods'',
     ss_success = Some True, ss_wordCount = 2\<rparr>,
     \<lparr>ss_sectionId = ''s3'', ss_sectionTitle = ''Results'',
     ss_success = Some True, ss_wordCount = 2\<rparr>,
     \<lparr>ss_sectionId = ''s4'', ss_sectionTitle = ''End'',
     ss_success = Some True, ss_wordCount = 2\<rparr>],
     res_errors = [(''Intro'', ''quota exceeded'')],
     res_warnings = []\<rparr>\<rparr>"
  by (simp add: run_defs example_defs cong: prod.case_cong_weak let_weak_cong)

lemma run_flaky_two:
  "generateProjectContent flaky_env proj2 =
   \<lparr>effects =
     [UpdateProjectStatus St_generating (Progress 2 0 None []),
     CreateDraft ''d1'', SectionStart 0,
     Emit (Ev_progress ''p1'' 2 0 ''Intro''),
     GenerateContent 0 ''Rewrite: Intro'', SectionStart 1,
     Emit (Ev_progress ''p1'' 2 0 ''Methods''),
     GenerateContent 1 ''Rewrite: Methods'',
     UpdateDraftSection ''d1''
     \<lparr>ds_templateSectionId = ''s1'', ds_templateSectionTitle = ''Intro'',
     ds_content = Some ''Generated text.'',
     ds_sourceRefs = [\<lparr>documentId = ''doc-1'', ref_sections = None\<rparr>],
     ds_warnings = []\<rparr>,
     Emit
     (Ev_section_complete ''p1'' ''s1'' ''Intro'' ''Generated text.''
     (Some True)),
     SectionEnd 0,
     UpdateProjectStatus St_draft (Failure ''connection reset''),
     Emit (Ev_error ''p1'' None ''connection reset'' False),
     UpdateDraftSection ''d1''
     \<lparr>ds_templateSectionId = ''s2'', ds_templateSectionTitle = ''Methods'',
     ds_content = Some ''Generated text.'',
     ds_sourceRefs = [\<lparr>documentId = ''doc-1'', ref_sections = None\<rparr>],
     ds_warnings = []\<rparr>,
     Emit
     (Ev_section_complete ''p1'' ''s2'' ''Methods'' ''Generated text.''
     (Some True)),
     UpdateProjectStatus St_generating
     (Progress 2 2 (Some ''Processing... (2/2)'') []),
     SectionEnd 1],
     outcome = Inl (Error ''connection reset'')\<rparr>"
  by (simp add: run_defs example_defs flaky_env_def cong: prod.case_cong_weak let_weak_cong)



lemma run_stalled_two:
  "generateProjectContent stalled_env proj2 =
   \<lparr>effects =
     [UpdateProjectStatus St_generating (Progress 2 0 None []),
      CreateDraft ''d1'', SectionStart 0,
      Emit (Ev_progress ''p1'' 2 0 ''Intro''),
      GenerateContent 0 ''Rewrite: Intro'', SectionStart 1,
      Emit (Ev_progress ''p1'' 2 0 ''Methods''),
      GenerateContent 1 ''Rewrite: Methods'',
      UpdateDraftSection ''d1''
        \<lparr>ds_templateSectionId = ''s2'', ds_templateSectionTitle = ''Methods'',
         ds_content = Some ''Generated text.'',
         ds_sourceRefs = [\<lparr>documentId = ''doc-1'', ref_sections = None\<rparr>],
         ds_warnings = []\<rparr>,
      Emit (Ev_section_complete ''p1'' ''s2'' ''Methods'' ''Generated text.'' (Some True)),
      UpdateProjectStatus St_generating (Progress 2 1 (Some ''Processing... (1/2)'') []),
      SectionEnd 1,
      Emit (Ev_error ''p1'' (Some ''Intro'') ''Generation timed out'' True),
      UpdateDraftSection ''d1''
        \<lparr>ds_templateSectionId = ''s1'', ds_templateSectionTitle = ''Intro'',
         ds_content =
           Some ''[Generation failed: Generation timed out. Please edit manually.]'',
         ds_sourceRefs = [], ds_warnings = [''Generation timed out'']\<rparr>,
      UpdateProjectStatus St_generating
        (Progress 2 1 (Some ''Processing... (1/2)'') [(''Intro'', ''Generation timed out'')]),
      SectionEnd 0, UpdateDraftReferences ''d1'' [],
      UpdateProjectStatus St_ready
        (Progress 2 2 None [(''Intro'', ''Generation timed out'')]),
      Emit (Ev_complete ''p1'' ''d1'' 1 [(''Intro'', ''Generation timed out'')])],
    outcome =
      Inr \<lparr>draftId = ''d1'',
           res_sections =
             [\<lparr>ss_sectionId = ''s2'', ss_sectionTitle = ''Methods'',
               ss_success = Some True, ss_wordCount = 2\<rparr>],
           res_errors = [(''Intro'', ''Generation timed out'')],
           res_warnings = []\<rparr>\<rparr>"
  by (simp add: run_defs example_defs stalled_env_def cong: prod.case_cong_weak let_weak_cong)

lemma proj_lengths:
  "length (section_mapping proj1) = 1"
  "length (section_mapping proj2) = 2"
  "length (section_mapping proj4) = 4"
  by (simp_all add: proj1_def proj2_def proj4_def)

lemma run_cases:
  obtains
    (finished) rs tr where "outcome (generateProjectContent e p) = Inr rs"
      "effects (generateProjectContent e p) = tr @
           [UpdateProjectStatus St_ready
              (Progress (length (section_mapping p)) (length (section_mapping p)) None
                 (res_errors rs)),
            Emit (Ev_complete (projectId p) (new_draft_id e) (length (res_sections rs))
                   (res_errors rs))]"
      "list_all unfinished tr"
      "length (res_sections rs) + length (res_errors rs) = length (section_mapping p)"
      "draftId rs = new_draft_id e"
  | (early) y where "outcome (generateProjectContent e p) = Inl y"
      "list_all unfinished (effects (generateProjectContent e p))"
  | (rolled) y tr m tail where "outcome (generateProjectContent e p) = Inl y"
      "effects (generateProjectContent e p) =
         tr @ UpdateProjectStatus St_draft (Failure m) # tail"
      "list_all unfinished tr" "starts tail = []" "list_all unfinished tail"
  using run_structure[of p e] by blast

subsection \<open>Batches, the final event and the progress of a run\<close>

lemma concat_slices:
  "concat (map (\<lambda>b. slice xs (b * c) (b * c + c)) [0..<n]) = take (n * c) xs"
proof (induction n)
  case 0
  then show ?case by simp
next
  case (Suc n)
  have "take (n * c) xs @ take c (drop (n * c) xs) = take (n * c + c) xs"
    by (simp add: take_add)
  then show ?case
    using Suc by (simp add: slice_def add.commute)
qed

lemma shape_good:
  assumes "shape L i k tr"
  shows "starts tr = [0..<length (starts tr)] \<and> length (starts tr) \<le> L \<and>
         (\<forall>j\<in>set (starts tr). \<forall>i'. i' div CONCURRENCY < j div CONCURRENCY \<longrightarrow>
            i' \<in> set (starts tr) \<and> i' \<in> set (ends tr)) \<and>
         card (set (starts tr) - set (ends tr)) \<le> CONCURRENCY"
proof -
  from assms have dv: "CONCURRENCY dvd i" and k: "k \<le> CONCURRENCY" and le: "i + k \<le> L"
    and st: "starts tr = [0..<i + k]" and en: "{0..<i} \<subseteq> set (ends tr)"
    by (simp_all add: shape_def)
  have "i' < i" if "j < i + k" "i' div CONCURRENCY < j div CONCURRENCY" for i' j
  proof -
    obtain q where q: "i = CONCURRENCY * q" using dv by (auto simp: dvd_def)
    have "j < CONCURRENCY * q + CONCURRENCY" using that(1) k q by simp
    then have "j div CONCURRENCY \<le> q" by (simp add: CONCURRENCY_def)
    then have "i' div CONCURRENCY < q" using that(2) by simp
    then show ?thesis using q by (simp add: CONCURRENCY_def)
  qed
  then have "i' < i \<and> i' < i + k" if "j < i + k" "i' div CONCURRENCY < j div CONCURRENCY" for i' j
    using that by fastforce
  then have a: "\<forall>j\<in>set (starts tr). \<forall>i'. i' div CONCURRENCY < j div CONCURRENCY \<longrightarrow>
            i' \<in> set (starts tr) \<and> i' \<in> set (ends tr)"
    using st en by (auto simp: subset_iff)
  have "set (starts tr) - set (ends tr) \<subseteq> {i..<i + k}"
  proof
    fix x
    assume x: "x \<in> set (starts tr) - set (ends tr)"
    then have "x < i + k" using st by simp
    moreover have "\<not> x < i" using x en by auto
    ultimately show "x \<in> {i..<i + k}" by simp
  qed
  then have "card (set (starts tr) - set (ends tr)) \<le> card {i..<i + k}"
    by (intro card_mono) simp_all
  then have c: "card (set (starts tr) - set (ends tr)) \<le> CONCURRENCY"
    using k by simp
  show ?thesis using st le a c by simp
qed

text \<open>
  Claim C5. The batches are the consecutive slices of three sections of the mapping. At
  every moment of every run (that is, for every prefix of its effects): the sections
  started so far are the first ones of the mapping, in mapping order; whenever a section
  has started, every section of an earlier batch has started and has ended; and at most
  three sections have started and not ended.
\<close>

theorem batches_run_in_sequence:
  "concat (map (\<lambda>b. slice (section_mapping p) (b * CONCURRENCY) (b * CONCURRENCY + CONCURRENCY))
             [0..<(length (section_mapping p) + 2) div CONCURRENCY]) = section_mapping p
   \<and> starts (take n (effects (generateProjectContent e p))) =
        [0..<length (starts (take n (effects (generateProjectContent e p))))]
   \<and> length (starts (take n (effects (generateProjectContent e p)))) \<le> length (section_mapping p)
   \<and> (\<forall>j\<in>set (starts (take n (effects (generateProjectContent e p)))).
        \<forall>i. i div CONCURRENCY < j div CONCURRENCY \<longrightarrow>
          i \<in> set (starts (take n (effects (generateProjectContent e p)))) \<and>
          i \<in> set (ends (take n (effects (generateProjectContent e p)))))
   \<and> card (set (starts (take n (effects (generateProjectContent e p)))) -
             set (ends (take n (effects (generateProjectContent e p))))) \<le> CONCURRENCY"
proof -
  have "all_shaped (length (section_mapping p)) (effects (generateProjectContent e p))"
    using run_structure[of p e] by blast
  then obtain i k where
    "shape (length (section_mapping p)) i k (take n (effects (generateProjectContent e p)))"
    unfolding all_shaped_def by blast
  note g = shape_good[OF this]
  have "length (section_mapping p) \<le> (length (section_mapping p) + 2) div CONCURRENCY * CONCURRENCY"
    by (simp add: CONCURRENCY_def)
  then have "concat (map (\<lambda>b. slice (section_mapping p) (b * CONCURRENCY) (b * CONCURRENCY + CONCURRENCY))
             [0..<(length (section_mapping p) + 2) div CONCURRENCY]) = section_mapping p"
    by (simp add: concat_slices)
  then show ?thesis using g by blast
qed

theorem batches_run_in_sequence_witness:
  "3 \<in> set (starts (take 25 (effects (generateProjectContent watched_env proj4)))) \<and>
   (0::nat) div CONCURRENCY < 3 div CONCURRENCY \<and>
   0 \<in> set (ends (take 25 (effects (generateProjectContent watched_env proj4)))) \<and>
   card (set (starts (take 25 (effects (generateProjectContent watched_env proj4)))) -
         set (ends (take 25 (effects (generateProjectContent watched_env proj4))))) \<le> CONCURRENCY"
  using batches_run_in_sequence[of proj4 25 watched_env]
  by (simp add: run_watched_four CONCURRENCY_def)

text \<open>
  Claim C2, as the code has it. When a run emits the \<open>complete\<close> event, the count in it
  (\<open>sectionsGenerated\<close>) is the number of section summaries collected, which is the
  length of the mapping minus the number of entries of the error list: a section whose
  processing threw is not counted. The event carries the id of the draft and the
  accumulated error list, and the status update to \<open>ready\<close> written just before it
  reports all sections of the mapping as completed.
\<close>

theorem complete_event_counts_sections_without_error:
  assumes "Emit (Ev_complete pid d n errs) \<in> set (effects (generateProjectContent e p))"
  shows "n = length (section_mapping p) - length errs \<and>
         length errs \<le> length (section_mapping p) \<and>
         pid = projectId p \<and> d = new_draft_id e \<and>
         (\<exists>rs. outcome (generateProjectContent e p) = Inr rs \<and> draftId rs = d \<and>
               res_errors rs = errs \<and> length (res_sections rs) = n) \<and>
         UpdateProjectStatus St_ready
           (Progress (length (section_mapping p)) (length (section_mapping p)) None errs)
           \<in> set (effects (generateProjectContent e p))"
proof -
  let ?run = "generateProjectContent e p"
  let ?L = "length (section_mapping p)"
  let ?c = "Emit (Ev_complete pid d n errs)"
  have nu: "\<not> unfinished ?c" by simp
  show ?thesis
  proof (cases rule: run_cases[of e p])
    case (finished rs tr)
    have "?c \<notin> set tr" using finished(3) nu by (auto simp: list_all_iff)
    then have "?c = Emit (Ev_complete (projectId p) (new_draft_id e) (length (res_sections rs))
                   (res_errors rs))"
      using assms finished(2) by auto
    then show ?thesis
      using finished by auto
  next
    case (early y)
    then show ?thesis using assms nu by (auto simp: list_all_iff)
  next
    case (rolled y tr m tail)
    then show ?thesis using assms nu by (auto simp: list_all_iff)
  qed
qed

theorem complete_event_counts_sections_without_error_witness:
  "Emit (Ev_complete ''p1'' ''d1'' 3 [(''Intro'', ''quota exceeded'')])
     \<in> set (effects (generateProjectContent watched_env proj4)) \<and>
   (3::nat) = length (section_mapping proj4) - length [(''Intro'', ''quota exceeded'')] \<and>
   UpdateProjectStatus St_ready (Progress 4 4 None [(''Intro'', ''quota exceeded'')])
     \<in> set (effects (generateProjectContent watched_env proj4))"
  using complete_event_counts_sections_without_error
          [of "''p1''" "''d1''" 3 "[(''Intro'', ''quota exceeded'')]" watched_env proj4]
  by (simp add: run_watched_four proj_lengths)

text \<open>Claim C2 as stated says that the count in the \<open>complete\<close> event is the length of
  the mapping however many sections failed. For a mapping of one section whose model call
  fails, the event reports 0.\<close>

theorem complete_event_omits_failed_sections:
  "last (effects (generateProjectContent watched_env proj1)) =
     Emit (Ev_complete ''p1'' ''d1'' 0 [(''Intro'', ''quota exceeded'')])
   \<and> length (section_mapping proj1) = 1"
  by (simp add: run_watched_one proj_lengths)





text \<open>
  What holds in every run: every progress update written to the store has
  \<open>completedSections \<le> totalSections\<close>; once the status has been set to \<open>ready\<close>, no
  draft section is written; once the status has been rolled back to \<open>draft\<close>, no further
  section is started.
\<close>

lemma progress_bounded_and_writes_stop:
  "(UpdateProjectStatus s (Progress t c cur errs) \<in> set (effects (generateProjectContent e p))
      \<longrightarrow> c \<le> t)
   \<and> (effects (generateProjectContent e p) = xs @ UpdateProjectStatus St_ready pl # ys
      \<longrightarrow> (\<forall>d ds. UpdateDraftSection d ds \<notin> set ys))
   \<and> (effects (generateProjectContent e p) = xs' @ UpdateProjectStatus St_draft pl' # ys'
      \<longrightarrow> starts ys' = [])"
proof (intro conjI impI)
  let ?run = "generateProjectContent e p"
  let ?L = "length (section_mapping p)"
  assume "UpdateProjectStatus s (Progress t c cur errs) \<in> set (effects ?run)"
  moreover have "list_all progress_ok (effects ?run)"
    using run_structure[of p e] by blast
  ultimately have "progress_ok (UpdateProjectStatus s (Progress t c cur errs))"
    by (auto simp: list_all_iff)
  then show "c \<le> t" by simp
next
  let ?run = "generateProjectContent e p"
  let ?L = "length (section_mapping p)"
  let ?r = "UpdateProjectStatus St_ready pl"
  assume eq: "effects ?run = xs @ ?r # ys"
  have nu: "\<not> unfinished ?r" by simp
  have mem: "?r \<in> set (effects ?run)" using eq by simp
  show "\<forall>d ds. UpdateDraftSection d ds \<notin> set ys"
  proof (cases rule: run_cases[of e p])
    case (finished rs tr)
    let ?Q = "\<lambda>x. \<forall>pl. x \<noteq> UpdateProjectStatus St_ready pl"
    have q1: "list_all ?Q tr"
      using finished(3) by (auto simp: list_all_iff)
    have q2: "list_all ?Q [Emit (Ev_complete (projectId p) (new_draft_id e)
                   (length (res_sections rs)) (res_errors rs))]"
      by simp
    have q3: "\<not> ?Q ?r" by simp
    have "xs @ ?r # ys = tr @ UpdateProjectStatus St_ready (Progress ?L ?L None (res_errors rs)) #
            [Emit (Ev_complete (projectId p) (new_draft_id e) (length (res_sections rs))
                   (res_errors rs))]"
      using eq finished(2) by simp
    from unique_split[OF q1 q2 q3 this]
    show ?thesis by simp
  next
    case (early y)
    then show ?thesis using mem nu by (auto simp: list_all_iff)
  next
    case (rolled y tr m tail)
    then show ?thesis using mem nu by (auto simp: list_all_iff)
  qed
next
  let ?run = "generateProjectContent e p"
  let ?L = "length (section_mapping p)"
  let ?r = "UpdateProjectStatus St_draft pl'"
  assume eq: "effects ?run = xs' @ ?r # ys'"
  have nu: "\<not> unfinished ?r" by simp
  have mem: "?r \<in> set (effects ?run)" using eq by simp
  show "starts ys' = []"
  proof (cases rule: run_cases[of e p])
    case (finished rs tr)
    then show ?thesis using mem nu by (auto simp: list_all_iff)
  next
    case (early y)
    then show ?thesis using mem nu by (auto simp: list_all_iff)
  next
    case (rolled y tr m tail)
    have "xs' @ ?r # ys' = tr @ UpdateProjectStatus St_draft (Failure m) # tail"
      using eq rolled(2) by simp
    from unique_split[OF rolled(3) rolled(5) nu this]
    show ?thesis using rolled(4) by simp
  qed
qed


text \<open>
  Claim C9 says that no draft section is written once the status has been rolled back to
  \<open>draft\<close>. \<open>Promise.all\<close> rejects as soon as one section of the batch throws, while the
  other sections of that batch are still running, and nothing stops them. Here the
  progress update at the end of the first of two sections is rejected: the outer \<open>catch\<close>
  sets the status to \<open>draft\<close> and emits the \<open>error\<close> event, and the second section then
  writes its draft section and sets the status back to \<open>generating\<close>. The promise is
  rejected and the project is left in status \<open>generating\<close>.
\<close>

theorem draft_written_after_rollback:
  "drop 11 (effects (generateProjectContent flaky_env proj2)) =
     [UpdateProjectStatus St_draft (Failure ''connection reset''),
      Emit (Ev_error ''p1'' None ''connection reset'' False),
      UpdateDraftSection ''d1''
        \<lparr>ds_templateSectionId = ''s2'', ds_templateSectionTitle = ''Methods'',
         ds_content = Some ''Generated text.'',
         ds_sourceRefs = [\<lparr>documentId = ''doc-1'', ref_sections = None\<rparr>],
         ds_warnings = []\<rparr>,
      Emit (Ev_section_complete ''p1'' ''s2'' ''Methods'' ''Generated text.'' (Some True)),
      UpdateProjectStatus St_generating (Progress 2 2 (Some ''Processing... (2/2)'') []),
      SectionEnd 1]
   \<and> outcome (generateProjectContent flaky_env proj2) = Inl (Error ''connection reset'')"
  by (simp add: run_flaky_two)

text \<open>An exception that leaves the \<open>try\<close> block when no section is in flight: if the
  store accepts the rollback and a listener is registered for \<open>error\<close>, the status is set
  to \<open>draft\<close> with the message, the \<open>error\<close> event is emitted with \<open>recoverable: false\<close>,
  and the same exception is thrown to the caller.\<close>

lemma run_catch_rolls_back:
  assumes "store_error e Call_rollbackStatus = None" and "error_listener e None"
  shows "effects (run_catch e p x [] st) =
           trace st @ [UpdateProjectStatus St_draft (Failure (message e x)),
                       Emit (Ev_error (projectId p) None (message e x) False)]
         \<and> outcome (run_catch e p x [] st) = Inl x"
  using assms by (simp add: run_catch_def do_effect_def Let_def)

text \<open>
  Claim C3 includes the failure of draft creation among the exceptions that roll the
  status back. \<open>createDraft\<close> is called before the \<open>try\<close> block: when it rejects, the
  run ends with the status still \<open>generating\<close>; there is no rollback to \<open>draft\<close> and no
  \<open>error\<close> event, only the rejection of the returned promise.
\<close>

theorem draft_creation_failure_not_rolled_back:
  "generateProjectContent no_draft_env proj1 =
   \<lparr>effects = [UpdateProjectStatus St_generating (Progress 1 0 None [])],
     outcome = Inl (Error ''insert failed'')\<rparr>"
  by (simp add: run_defs example_defs no_draft_env_def cong: prod.case_cong_weak let_weak_cong)


text \<open>What the handler of a section does with an exception, and what a run does, when
  the store accepts every call and a listener is registered for \<open>error\<close>: the exception
  is recorded, the event is emitted, the placeholder is written, and the run goes on to
  \<open>ready\<close>.\<close>


lemma section_catch_handles:
  assumes "store_error e (Call_placeholderWrite (fst ic)) = None"
    and "store_error e (Call_sectionStatus (fst ic)) = None"
    and "error_listener e (Some (fst ic))"
    and "race e p (fst ic) (snd ic) = Inl (Error m)"
  shows "section_complete e p ic st =
     (st\<lparr>trace := trace st @
          [Emit (Ev_error (projectId p) (Some (templateSectionTitle (snd ic))) m True),
           UpdateDraftSection (draftId (res st)) (placeholder (snd ic) m),
           UpdateProjectStatus St_generating
             (Progress (length (section_mapping p)) (length (res_sections (res st)))
                (Some (''Processing... ('' @ string_of_nat (length (res_sections (res st)))
                       @ ''/'' @ string_of_nat (length (section_mapping p)) @ '')''))
                (res_errors (res st) @ [(templateSectionTitle (snd ic), m)])),
           SectionEnd (fst ic)],
         res := (res st)\<lparr>res_errors :=
                   res_errors (res st) @ [(templateSectionTitle (snd ic), m)]\<rparr>\<rparr>,
      None)"
  using assms by (simp add: section_defs message_def)

lemma section_complete_healthy:
  assumes "\<forall>c. store_error e c = None" and "\<forall>i. error_listener e i"
  shows "snd (section_complete e p ic st) = None"
  using assms by (simp add: section_defs split: sum.splits)

lemma complete_all_healthy:
  assumes "\<forall>c. store_error e c = None" and "\<forall>i. error_listener e i"
  shows "snd (complete_all e p ics st) = None"
proof (induction ics arbitrary: st)
  case Nil
  then show ?case by simp
next
  case (Cons ic ics)
  obtain st1 r1 where sc: "section_complete e p ic st = (st1, r1)"
    by (cases "section_complete e p ic st")
  then have "r1 = None"
    using section_complete_healthy[OF assms, of p ic st] by simp
  then show ?case using sc Cons.IH by simp
qed

lemma batch_loop_healthy:
  assumes "\<forall>c. store_error e c = None" and "\<forall>i. error_listener e i"
  shows "snd (batch_loop e p i st) = None"
  using assms
proof (induction e p i st rule: batch_loop.induct)
  case (1 e p i st)
  show ?case
  proof (cases "i < length (section_mapping p)")
    case False
    then show ?thesis by (simp add: batch_loop.simps)
  next
    case True
    obtain st1 r1 where pa:
      "promise_all e p i (slice (section_mapping p) i (i + CONCURRENCY)) st = (st1, r1)"
      by (cases "promise_all e p i (slice (section_mapping p) i (i + CONCURRENCY)) st")
    have "r1 = None"
      using complete_all_healthy[OF "1.prems"] pa
      by (simp add: promise_all_def Let_def) (metis snd_conv)
    then show ?thesis
      using "1.IH"[OF True pa[symmetric] _ "1.prems"] pa True
      by (simp add: batch_loop.simps)
  qed
qed

lemma healthy_run_reaches_ready:
  assumes "\<forall>c. store_error e c = None" and "\<forall>i. error_listener e i"
  shows "\<exists>rs tr. outcome (generateProjectContent e p) = Inr rs \<and>
           effects (generateProjectContent e p) = tr @
             [UpdateProjectStatus St_ready
                (Progress (length (section_mapping p)) (length (section_mapping p)) None
                   (res_errors rs)),
              Emit (Ev_complete (projectId p) (new_draft_id e) (length (res_sections rs))
                     (res_errors rs))]"
proof -
  let ?st0 = "\<lparr>trace = [UpdateProjectStatus St_generating
                       (Progress (length (section_mapping p)) 0 None [])] @
                     [CreateDraft (new_draft_id e)],
               res = \<lparr>draftId = new_draft_id e, res_sections = [],
                      res_errors = [], res_warnings = []\<rparr>\<rparr>"
  obtain st r where bl: "batch_loop e p 0 ?st0 = (st, r)"
    by (cases "batch_loop e p 0 ?st0")
  then have "r = None"
    using batch_loop_healthy[OF assms, of p 0 ?st0] by simp
  then have "\<exists>y. outcome (generateProjectContent e p) = Inr y"
    using assms bl by (simp add: generateProjectContent_def Let_def)
  then show ?thesis
    by (cases rule: run_cases[of e p]) auto
qed


text \<open>In such a run every section of the mapping starts and ends, whichever of them
  failed or timed out.\<close>

lemma healthy_run_ends_every_section:
  assumes "\<forall>c. store_error e c = None" and "\<forall>i. error_listener e i"
  shows "starts (effects (generateProjectContent e p)) = [0..<length (section_mapping p)] \<and>
         {0..<length (section_mapping p)} \<subseteq> set (ends (effects (generateProjectContent e p)))"
proof -
  let ?run = "generateProjectContent e p"
  obtain rs where out: "outcome ?run = Inr rs"
    using healthy_run_reaches_ready[OF assms, of p] by blast
  then obtain xs ys where eff: "effects ?run =
        xs @ UpdateDraftReferences (new_draft_id e) (collectReferences (documents p)) # ys"
    and xs: "starts xs = [0..<length (section_mapping p)]"
      "{0..<length (section_mapping p)} \<subseteq> set (ends xs)"
    and ys: "list_all closing ys"
    using run_references[of e p] by auto
  have "starts ys = []" using closing_quiet[OF ys] by simp
  then show ?thesis
    using eff xs by auto
qed

text \<open>The timer of a section: a model call that settles in less than 300000 ms wins the
  race; one that has not settled by then loses it, whatever it settles to later, and the
  section is handled like any other section that threw. With a listener for \<open>error\<close> the
  error is recorded, the event emitted and the placeholder written; without one, \<open>emit\<close>
  throws and the exception leaves \<open>processSection\<close>.\<close>

lemma timed_out_iff:
  "timed_out r \<longleftrightarrow>
     r = Never \<or> (\<exists>t response. r = Responds t response \<and> 300000 \<le> t)
       \<or> (\<exists>t m. r = Fails t m \<and> 300000 \<le> t)"
  by (cases r) (simp_all add: timed_out_def SECTION_TIMEOUT_MS_def)

lemma race_in_time:
  assumes "generationPromise e p sectionConfig = Inr (AwaitModel req prompt k)"
    and "generateContent e i prompt = Responds t response" and "t < 300000"
  shows "race e p i sectionConfig = Inr (k response)"
  using assms by (simp add: race_def SECTION_TIMEOUT_MS_def)

lemma race_timed_out:
  assumes "generationPromise e p sectionConfig = Inr (AwaitModel req prompt k)"
    and "timed_out (generateContent e i prompt)"
  shows "race e p i sectionConfig = Inl (Error ''Generation timed out'')"
  using assms by (simp add: race_def timed_out_def split: model_outcome.splits)

lemma timed_out_section_handled:
  assumes "generationPromise e p (snd ic) = Inr (AwaitModel req prompt k)"
    and "timed_out (generateContent e (fst ic) prompt)"
    and "store_error e (Call_placeholderWrite (fst ic)) = None"
    and "store_error e (Call_sectionStatus (fst ic)) = None"
    and "error_listener e (Some (fst ic))"
  shows "section_complete e p ic st =
     (st\<lparr>trace := trace st @
          [Emit (Ev_error (projectId p) (Some (templateSectionTitle (snd ic)))
                   ''Generation timed out'' True),
           UpdateDraftSection (draftId (res st))
             \<lparr>ds_templateSectionId = templateSectionId (snd ic),
              ds_templateSectionTitle = templateSectionTitle (snd ic),
              ds_content =
                Some ''[Generation failed: Generation timed out. Please edit manually.]'',
              ds_sourceRefs = [],
              ds_warnings = [''Generation timed out'']\<rparr>,
           UpdateProjectStatus St_generating
             (Progress (length (section_mapping p)) (length (res_sections (res st)))
                (Some (''Processing... ('' @ string_of_nat (length (res_sections (res st)))
                       @ ''/'' @ string_of_nat (length (section_mapping p)) @ '')''))
                (res_errors (res st) @
                   [(templateSectionTitle (snd ic), ''Generation timed out'')])),
           SectionEnd (fst ic)],
         res := (res st)\<lparr>res_errors :=
                   res_errors (res st) @
                     [(templateSectionTitle (snd ic), ''Generation timed out'')]\<rparr>\<rparr>,
      None)"
  using section_catch_handles[OF assms(3,4,5) race_timed_out[OF assms(1,2)], of st]
  by (simp add: placeholder_def)

lemma timed_out_section_unhandled:
  assumes "generationPromise e p (snd ic) = Inr (AwaitModel req prompt k)"
    and "timed_out (generateContent e (fst ic) prompt)"
    and "store_error e (Call_sectionStatus (fst ic)) = None"
    and "\<not> error_listener e (Some (fst ic))"
  shows "section_complete e p ic st =
     (st\<lparr>trace := trace st @
          [UpdateProjectStatus St_generating
             (Progress (length (section_mapping p)) (length (res_sections (res st)))
                (Some (''Processing... ('' @ string_of_nat (length (res_sections (res st)))
                       @ ''/'' @ string_of_nat (length (section_mapping p)) @ '')''))
                (res_errors (res st) @
                   [(templateSectionTitle (snd ic), ''Generation timed out'')])),
           SectionEnd (fst ic)],
         res := (res st)\<lparr>res_errors :=
                   res_errors (res st) @
                     [(templateSectionTitle (snd ic), ''Generation timed out'')]\<rparr>\<rparr>,
      Some (ERR_UNHANDLED_ERROR
              (Ev_error (projectId p) (Some (templateSectionTitle (snd ic)))
                 ''Generation timed out'' True)))"
  using assms(3,4) race_timed_out[OF assms(1,2)]
  by (simp add: section_defs message_def)

lemma late_result_ignored:
  assumes "timed_out (generateContent e (fst ic) prompt)"
    and "generationPromise e p (snd ic) = Inr (AwaitModel req prompt k)"
  shows "section_complete e p ic st =
         section_complete (e\<lparr>generateContent := (\<lambda>i q. Never)\<rparr>) p ic st"
proof -
  let ?e = "e\<lparr>generateContent := (\<lambda>i q. Never)\<rparr>"
  have "generationPromise ?e p (snd ic) = generationPromise e p (snd ic)"
    by (simp add: generationPromise_def split: list.splits)
  then have g: "generationPromise ?e p (snd ic) = Inr (AwaitModel req prompt k)"
    using assms(2) by simp
  have "race ?e p (fst ic) (snd ic) = Inl (Error ''Generation timed out'')"
    by (rule race_timed_out[OF g]) (simp add: timed_out_def)
  then show ?thesis
    using race_timed_out[OF assms(2,1)]
    by (simp add: section_defs message_def split: option.splits)
qed

text \<open>
  Claim C4 says that a section whose model call has not settled when the timer fires
  fails with "Generation timed out", with the placeholder written to the draft and the
  error recorded, while the rest of its batch completes. The time-out is handled by the
  \<open>catch\<close> block of the section, which emits the event named \<open>error\<close>; with no listener
  registered for that name (no client connected to the status stream), \<open>emit\<close> throws.
  Here the model call of the first of two sections never settles: the second section
  completes on its own and the error is recorded, but no placeholder is written for the
  first section, the exception leaves \<open>processSection\<close>, the status is rolled back to
  \<open>draft\<close> and the promise is rejected.
\<close>

theorem timed_out_section_without_listener_aborts_run:
  "generateProjectContent stalled_unwatched_env proj2 =
   \<lparr>effects =
     [UpdateProjectStatus St_generating (Progress 2 0 None []),
      CreateDraft ''d1'', SectionStart 0,
      Emit (Ev_progress ''p1'' 2 0 ''Intro''),
      GenerateContent 0 ''Rewrite: Intro'', SectionStart 1,
      Emit (Ev_progress ''p1'' 2 0 ''Methods''),
      GenerateContent 1 ''Rewrite: Methods'',
      UpdateDraftSection ''d1''
        \<lparr>ds_templateSectionId = ''s2'', ds_templateSectionTitle = ''Methods'',
         ds_content = Some ''Generated text.'',
         ds_sourceRefs = [\<lparr>documentId = ''doc-1'', ref_sections = None\<rparr>],
         ds_warnings = []\<rparr>,
      Emit (Ev_section_complete ''p1'' ''s2'' ''Methods'' ''Generated text.'' (Some True)),
      UpdateProjectStatus St_generating (Progress 2 1 (Some ''Processing... (1/2)'') []),
      SectionEnd 1,
      UpdateProjectStatus St_generating
        (Progress 2 1 (Some ''Processing... (1/2)'') [(''Intro'', ''Generation timed out'')]),
      SectionEnd 0,
      UpdateProjectStatus St_draft (Failure ''Unhandled error. ([object])'')],
    outcome =
      Inl (ERR_UNHANDLED_ERROR
             (Ev_error ''p1'' None ''Unhandled error. ([object])'' False))\<rparr>"
  by (simp add: run_defs example_defs stalled_env_def stalled_unwatched_env_def
        cong: prod.case_cong_weak let_weak_cong)


text \<open>
  Claim C1 says that an exception of one section is handled inside that section and the
  run still reaches \<open>ready\<close>. The handler emits the event named \<open>error\<close> on an
  \<open>EventEmitter\<close>; with no listener registered for that name (no client connected to the
  status stream), \<open>emit\<close> itself throws. Here the model call of the first of four
  sections fails: no placeholder is written for it, the exception leaves
  \<open>processSection\<close>, the status is rolled back to \<open>draft\<close>, the fourth section is never
  started, and the promise is rejected.
\<close>

theorem section_error_without_listener_aborts_run:
  "generateProjectContent unwatched_env proj4 =
   \<lparr>effects =
     [UpdateProjectStatus St_generating (Progress 4 0 None []),
     CreateDraft ''d1'', SectionStart 0,
     Emit (Ev_progress ''p1'' 4 0 ''Intro''),
     GenerateContent 0 ''Rewrite: Intro'', SectionStart 1,
     Emit (Ev_progress ''p1'' 4 0 ''Methods''),
     GenerateContent 1 ''Rewrite: Methods'', SectionStart 2,
     Emit (Ev_progress ''p1'' 4 0 ''Results''),
     GenerateContent 2 ''Rewrite: Results'',
     UpdateProjectStatus St_generating
     (Progress 4 0 (Some ''Processing... (0/4)'')
     [(''Intro'', ''quota exceeded'')]),
     SectionEnd 0,
     UpdateProjectStatus St_draft (Failure ''Unhandled error. ([object])''),
     UpdateDraftSection ''d1''
     \<lparr>ds_templateSectionId = ''s2'', ds_templateSectionTitle = ''Methods'',
     ds_content = Some ''Generated text.'',
     ds_sourceRefs = [\<lparr>documentId = ''doc-1'', ref_sections = None\<rparr>],
     ds_warnings = []\<rparr>,
     Emit
     (Ev_section_complete ''p1'' ''s2'' ''Methods'' ''Generated text.''
     (Some True)),
     UpdateProjectStatus St_generating
     (Progress 4 1 (Some ''Processing... (1/4)'')
     [(''Intro'', ''quota exceeded'')]),
     SectionEnd 1,
     UpdateDraftSection ''d1''
     \<lparr>ds_templateSectionId = ''s3'', ds_templateSectionTitle = ''Results'',
     ds_content = Some ''Generated text.'',
     ds_sourceRefs = [\<lparr>documentId = ''doc-1'', ref_sections = None\<rparr>],
     ds_warnings = []\<rparr>,
     Emit
     (Ev_section_complete ''p1'' ''s3'' ''Results'' ''Generated text.''
     (Some True)),
     UpdateProjectStatus St_generating
     (Progress 4 2 (Some ''Processing... (2/4)'')
     [(''Intro'', ''quota exceeded'')]),
     SectionEnd 2],
     outcome =
     Inl (ERR_UNHANDLED_ERROR
     (Ev_error ''p1'' None ''Unhandled error. ([object])'' False))\<rparr>"
  by (simp add: run_defs example_defs unwatched_env_def cong: prod.case_cong_weak let_weak_cong)


end
